theory Spec2Isabelle
  imports Main
begin

section \<open>Source text, ranges and string primitives\<close>

text \<open>
  Node positions and edits are half-open offset ranges \<open>[start, end)\<close> into the
  source text. Strings are lists of characters; the JavaScript string methods the
  rules call are written out as executable functions. A character stands for the
  UTF-16 code unit of the same value: file names and source text hold code units below
  \<open>0x100\<close>, and text with other code units is outside the model.
\<close>

type_synonym range = "nat \<times> nat"

definition getText :: "string \<Rightarrow> range \<Rightarrow> string" where
  "getText src r = take (snd r - fst r) (drop (fst r) src)"

definition startsWith :: "string \<Rightarrow> string \<Rightarrow> bool" where
  "startsWith s p = (take (length p) s = p)"

definition endsWith :: "string \<Rightarrow> string \<Rightarrow> bool" where
  "endsWith s p = (length p \<le> length s \<and> drop (length s - length p) s = p)"

fun str_includes :: "string \<Rightarrow> string \<Rightarrow> bool" where
  "str_includes [] p = (p = [])"
| "str_includes (c # cs) p = (startsWith (c # cs) p \<or> str_includes cs p)"

section \<open>Fixes and diagnostics\<close>

text \<open>
  A fix object of the host is a range and a replacement text. The fixer operations the
  rules call only build such objects: a replacement of a node or of a range, a removal,
  and insertions, which are replacements of an empty range.
\<close>

datatype rule_fix = Fix (fix_range: range) (fix_text: string)

definition replaceTextRange :: "range \<Rightarrow> string \<Rightarrow> rule_fix" where
  "replaceTextRange r t = Fix r t"

definition replaceText :: "range \<Rightarrow> string \<Rightarrow> rule_fix" where
  "replaceText node_range t = replaceTextRange node_range t"

definition removeRange :: "range \<Rightarrow> rule_fix" where
  "removeRange r = replaceTextRange r []"

definition insertTextBeforeRange :: "range \<Rightarrow> string \<Rightarrow> rule_fix" where
  "insertTextBeforeRange r t = Fix (fst r, fst r) t"

definition insertTextAfterRange :: "range \<Rightarrow> string \<Rightarrow> rule_fix" where
  "insertTextAfterRange r t = Fix (snd r, snd r) t"

definition insertTextBefore :: "range \<Rightarrow> string \<Rightarrow> rule_fix" where
  "insertTextBefore node_range t = insertTextBeforeRange node_range t"

definition insertTextAfter :: "range \<Rightarrow> string \<Rightarrow> rule_fix" where
  "insertTextAfter node_range t = insertTextAfterRange node_range t"

text \<open>
  A diagnostic is what a rule hands to \<open>context.report\<close>: the anchor node (its range),
  the message id, the substitution data, and the result of the \<open>fix\<close> callback if the
  report has one (\<open>None\<close> when the report has no \<open>fix\<close> key or the callback returns
  \<open>null\<close>).
\<close>

record diagnostic =
  d_node :: range
  messageId :: string
  d_data :: "(string \<times> string) list"
  d_fix :: "rule_fix list option"

text \<open>
  A visitor either returns, having made its reports, or throws. The rules throw only by
  reading a property of \<open>undefined\<close> or \<open>null\<close>, a \<open>TypeError\<close>; the host does not
  catch it, so a throw ends the run on the file and nothing is reported for it.
\<close>

datatype error = TypeError

text \<open>Reports made one after the other; a throw ends the visitor.\<close>

definition then_report ::
  "error + diagnostic list \<Rightarrow> error + diagnostic list \<Rightarrow> error + diagnostic list" where
  "then_report a b =
     (case a of Inl e \<Rightarrow> Inl e
      | Inr ds \<Rightarrow> (case b of Inl e \<Rightarrow> Inl e | Inr ds' \<Rightarrow> Inr (ds @ ds')))"

section \<open>The syntax tree\<close>

text \<open>
  The fragment of the ESTree / TypeScript-ESTree node types that the six rules inspect.
  Every node carries its range; a node kind no rule looks into keeps its type tag only.
\<close>

datatype lit_value = LString string | LNumber | LBoolean bool | LNull | LRegExp | LBigInt

datatype ts_type =
    TSUnionType range "ts_type list"
  | TSArrayType range ts_type
  | TSStringKeyword range
  | TSNumberKeyword range
  | TSBooleanKeyword range
  | TSUndefinedKeyword range
  | TSNullKeyword range
  | TSOtherType string range

fun ts_range :: "ts_type \<Rightarrow> range" where
  "ts_range (TSUnionType r _) = r"
| "ts_range (TSArrayType r _) = r"
| "ts_range (TSStringKeyword r) = r"
| "ts_range (TSNumberKeyword r) = r"
| "ts_range (TSBooleanKeyword r) = r"
| "ts_range (TSUndefinedKeyword r) = r"
| "ts_range (TSNullKeyword r) = r"
| "ts_range (TSOtherType _ r) = r"

text \<open>\<open>TSTypeParameterInstantiation\<close>: the range of \<open><...>\<close> and its \<open>params\<close>.\<close>

datatype type_args = TypeArgs (targs_range: range) (targs_params: "ts_type list")

text \<open>A function parameter: its range and the range of its type annotation, if any.\<close>

datatype param = Param (param_range: range) (param_typeAnnotation: "range option")

datatype expr =
    Identifier range string
  | Literal range lit_value
  | TemplateLiteral range "string list" "expr list"
  | AwaitExpression range expr
  | CallExpression range expr "type_args option" "expr list"
  | MemberExpression range expr expr
  | ObjectExpression range "property list"
  | ArrayExpression range "expr option list"
  | ArrowFunctionExpression range "param list" fbody bool
  | FunctionExpression range "param list" fbody bool
  | OtherExpression string range
and property =
    Property range expr bool
  | SpreadElement range
and fbody =
    BlockStatement range "stmt list"
  | ExpressionBody expr
and stmt =
    ExpressionStatement range expr
  | EmptyStatement range
  | VariableDeclarationStatement range
  | ReturnStatement range
  | OtherStatement string range

text \<open>
  \<open>TemplateLiteral r quasis expressions\<close> keeps the raw text of each quasi.
  \<open>CallExpression r callee typeArguments arguments\<close>; \<open>MemberExpression r object property\<close>;
  \<open>Property r key computed\<close>; the two function forms carry parameters, body and the
  \<open>async\<close> flag. An array element is \<open>None\<close> for a hole.
\<close>

fun expr_range :: "expr \<Rightarrow> range" where
  "expr_range (Identifier r _) = r"
| "expr_range (Literal r _) = r"
| "expr_range (TemplateLiteral r _ _) = r"
| "expr_range (AwaitExpression r _) = r"
| "expr_range (CallExpression r _ _ _) = r"
| "expr_range (MemberExpression r _ _) = r"
| "expr_range (ObjectExpression r _) = r"
| "expr_range (ArrayExpression r _) = r"
| "expr_range (ArrowFunctionExpression r _ _ _) = r"
| "expr_range (FunctionExpression r _ _ _) = r"
| "expr_range (OtherExpression _ r) = r"

section \<open>Rule supabase-no-insert-with-id\<close>

text \<open>
  \<open>((prop as Property).key as Identifier).name\<close>: the cast is unchecked, so the read
  yields the name of an identifier key and \<open>undefined\<close> for every other key node.
\<close>

definition key_name :: "expr \<Rightarrow> string option" where
  "key_name k = (case k of Identifier _ n \<Rightarrow> Some n | _ \<Rightarrow> None)"

definition prop_is_id :: "property \<Rightarrow> bool" where
  "prop_is_id p = (case p of Property _ k _ \<Rightarrow> key_name k = Some ''id'' | SpreadElement _ \<Rightarrow> False)"

definition hasId :: "property list \<Rightarrow> bool" where
  "hasId props = list_ex prop_is_id props"

definition report_noInsertWithId :: "range \<Rightarrow> diagnostic" where
  "report_noInsertWithId r =
     \<lparr>d_node = r, messageId = ''noInsertWithId'', d_data = [], d_fix = None\<rparr>"

text \<open>The \<open>forEach\<close> over the elements of a batch insert.\<close>

fun insert_elements :: "expr option list \<Rightarrow> diagnostic list" where
  "insert_elements [] = []"
| "insert_elements (element # rest) =
     (case element of
        Some (ObjectExpression r props) \<Rightarrow>
          (if hasId props then [report_noInsertWithId r] else [])
      | _ \<Rightarrow> [])
     @ insert_elements rest"

definition is_insert_callee :: "expr \<Rightarrow> bool" where
  "is_insert_callee callee =
     (case callee of
        MemberExpression _ _ prop \<Rightarrow>
          (case prop of Identifier _ n \<Rightarrow> n = ''insert'' | _ \<Rightarrow> False)
      | _ \<Rightarrow> False)"

definition insert_CallExpression :: "expr \<Rightarrow> diagnostic list" where
  "insert_CallExpression node =
     (case node of
        CallExpression _ callee _ args \<Rightarrow>
          (if is_insert_callee callee \<and> length args > 0 then
             (let arg = hd args in
                (case arg of
                   ObjectExpression r props \<Rightarrow>
                     (if hasId props then [report_noInsertWithId r] else [])
                 | _ \<Rightarrow> [])
                @
                (case arg of
                   ArrayExpression _ elements \<Rightarrow>
                     (if length elements > 0 then insert_elements elements else [])
                 | _ \<Rightarrow> []))
           else [])
      | _ \<Rightarrow> [])"

section \<open>Import declarations, scope information and the source-code object\<close>

text \<open>
  An identifier node of an import specifier or of a reference. \<open>id_addr\<close> stands for the
  identity of the node object: the icon rule compares nodes with \<open>!==\<close>.
\<close>

datatype ident = Ident (id_addr: nat) (id_range: range) (id_name: string)

text \<open>
  The \<open>imported\<close> of an \<open>ImportSpecifier\<close> node is an \<open>Identifier\<close> or, for a
  string-literal export name as in \<^verbatim>\<open>import { "a-b" as x } from "m"\<close>, a \<open>Literal\<close>; its
  \<open>local\<close> is always an identifier. \<open>ImportSpecifier r imported local\<close> is the node with
  an identifier, \<open>ImportSpecifierLiteral r imported_range value local\<close> the node with a
  literal. The rules read \<open>imported.name\<close> through an unchecked cast to \<open>Identifier\<close>;
  on a literal that read yields \<open>undefined\<close>.
\<close>

datatype import_specifier =
    ImportSpecifier range ident ident
  | ImportSpecifierLiteral range range string ident
  | ImportDefaultSpecifier range ident
  | ImportNamespaceSpecifier range ident

record import_declaration =
  imp_range :: range
  imp_source_range :: range
  imp_source_value :: string
  imp_specifiers :: "import_specifier list"

text \<open>A variable of the scope manager: its name and the identifiers of its references.\<close>

record variable =
  var_name :: string
  var_references :: "ident list"

text \<open>
  What the rules read from the host's \<open>sourceCode\<close>: the text, the token ranges in
  document order, the top-level statements of \<open>ast.body\<close> (type tag and range), and
  \<open>getDeclaredVariables\<close>.
\<close>

record source_code =
  src_text :: string
  src_tokens :: "range list"
  src_body :: "(string \<times> range) list"
  src_declaredVariables :: "import_declaration \<Rightarrow> variable list"

text \<open>
  Token lookup of the host: the first token starting at or after the end of the node,
  and the last token starting before the start of the node; \<open>null\<close> if there is none.
\<close>

definition getTokenAfter :: "source_code \<Rightarrow> range \<Rightarrow> range option" where
  "getTokenAfter sc r = find (\<lambda>t. snd r \<le> fst t) (src_tokens sc)"

definition getTokenBefore :: "source_code \<Rightarrow> range \<Rightarrow> range option" where
  "getTokenBefore sc r =
     (case filter (\<lambda>t. fst t < fst r) (src_tokens sc) of
        [] \<Rightarrow> None
      | t # ts \<Rightarrow> Some (last (t # ts)))"

text \<open>
  \<open>specifiers.filter(spec => spec.type === "ImportSpecifier").map(spec => spec.imported.name)\<close>,
  without the \<open>undefined\<close> entries, which equal no name the rules look for.
\<close>

definition importedNames :: "import_specifier list \<Rightarrow> string list" where
  "importedNames specs =
     concat (map (\<lambda>spec. case spec of ImportSpecifier _ imported _ \<Rightarrow> [id_name imported]
                                   | _ \<Rightarrow> []) specs)"

section \<open>Rule supabase-no-direct-imports\<close>

definition createClient_replacement :: string where
  "createClient_replacement = ''@/integrations/supabase/client''"

definition dquote :: string where
  "dquote = [CHR 0x22]"

definition supabase_ImportDeclaration :: "string \<Rightarrow> import_declaration \<Rightarrow> diagnostic list" where
  "supabase_ImportDeclaration filename node =
     (let source = imp_source_value node in
      if source = ''@supabase/supabase-js''
         \<and> (str_includes filename ''src/integrations/supabase/''
              \<or> str_includes filename ''supabase/functions/'')
      then []
      else
        (if source = ''@supabase/supabase-js''
            \<and> ''createClient'' \<in> set (importedNames (imp_specifiers node))
         then [\<lparr>d_node = imp_range node,
                messageId = ''noDirectSupabaseImport'',
                d_data = [(''source'', source), (''replacement'', createClient_replacement)],
                d_fix = Some [replaceText (imp_source_range node)
                                (dquote @ createClient_replacement @ dquote)]\<rparr>]
         else [])
        @
        (if source = ''@supabase/ssr'' then
           (if str_includes filename ''src/lib/supabase/'' then []
            else if ''createServerClient'' \<in> set (importedNames (imp_specifiers node))
            then [\<lparr>d_node = imp_range node,
                   messageId = ''noDirectSSRImport'',
                   d_data = [(''source'', source)],
                   d_fix = None\<rparr>]
            else [])
         else []))"

section \<open>Rule lucide-icon-suffix\<close>

text \<open>\<open>variable.references.forEach\<close>: every reference but the import's own local node.\<close>

fun reference_fixes :: "ident \<Rightarrow> string \<Rightarrow> ident list \<Rightarrow> rule_fix list" where
  "reference_fixes local suggestedName [] = []"
| "reference_fixes local suggestedName (ref # refs) =
     (if id_addr ref \<noteq> id_addr local then [replaceText (id_range ref) suggestedName] else [])
     @ reference_fixes local suggestedName refs"

text \<open>\<open>declaredVariables.forEach\<close>.\<close>

fun variable_fixes :: "ident \<Rightarrow> string \<Rightarrow> variable list \<Rightarrow> rule_fix list" where
  "variable_fixes local suggestedName [] = []"
| "variable_fixes local suggestedName (v # vs) =
     (if var_name v = id_name local then reference_fixes local suggestedName (var_references v)
      else [])
     @ variable_fixes local suggestedName vs"

definition lucide_fix ::
  "source_code \<Rightarrow> import_declaration \<Rightarrow> ident \<Rightarrow> ident \<Rightarrow> rule_fix list" where
  "lucide_fix sc node imported local =
     (let suggestedName = id_name imported @ ''Icon'' in
      [replaceText (id_range imported) suggestedName]
      @ (if id_name imported = id_name local
         then variable_fixes local suggestedName (src_declaredVariables sc node)
         else []))"

text \<open>
  The body of the loop over the specifiers. For a specifier whose \<open>imported\<close> is a
  literal, \<open>importedName\<close> is \<open>undefined\<close> and \<open>importedName.endsWith("Icon")\<close> throws.
\<close>

definition lucide_specifier ::
  "source_code \<Rightarrow> import_declaration \<Rightarrow> import_specifier \<Rightarrow> error + diagnostic list" where
  "lucide_specifier sc node specifier =
     (case specifier of
        ImportSpecifier r imported local \<Rightarrow>
          Inr (if \<not> endsWith (id_name imported) ''Icon'' then
                 [\<lparr>d_node = r,
                   messageId = ''missingIconSuffix'',
                   d_data = [(''imported'', id_name imported),
                             (''suggested'', id_name imported @ ''Icon'')],
                   d_fix = Some (lucide_fix sc node imported local)\<rparr>]
               else [])
      | ImportSpecifierLiteral _ _ _ _ \<Rightarrow> Inl TypeError
      | _ \<Rightarrow> Inr [])"

text \<open>\<open>node.specifiers.forEach\<close>.\<close>

fun lucide_specifiers ::
  "source_code \<Rightarrow> import_declaration \<Rightarrow> import_specifier list \<Rightarrow> error + diagnostic list" where
  "lucide_specifiers sc node [] = Inr []"
| "lucide_specifiers sc node (specifier # rest) =
     then_report (lucide_specifier sc node specifier) (lucide_specifiers sc node rest)"

definition lucide_ImportDeclaration ::
  "source_code \<Rightarrow> import_declaration \<Rightarrow> error + diagnostic list" where
  "lucide_ImportDeclaration sc node =
     (if imp_source_value node \<noteq> ''lucide-react'' then Inr []
      else lucide_specifiers sc node (imp_specifiers node))"

section \<open>Variable declarations\<close>

text \<open>
  The \<open>id\<close> of a declarator: an identifier with its name and the range of its type
  annotation if it has one, or a destructuring pattern.
\<close>

datatype binding =
    BindingIdentifier range string "range option"
  | BindingPattern string range

datatype declarator =
  VariableDeclarator (decl_range: range) (decl_id: binding) (decl_init: "expr option")

section \<open>Rule next-no-redirect-only-pages\<close>

subsection \<open>The route of the file\<close>

text \<open>
  \<open>filename.match(/src\/app(.*)\/page\.tsx$/)\<close>: the leftmost position where \<open>src/app\<close>
  starts and the rest ends in \<open>/page.tsx\<close>; the group is what lies between and, being
  matched by \<open>.\<close>, holds no line terminator.
\<close>

definition is_line_terminator :: "char \<Rightarrow> bool" where
  "is_line_terminator c = (c = CHR 0x0A \<or> c = CHR 0x0D)"

fun match_src_app :: "string \<Rightarrow> string option" where
  "match_src_app [] = None"
| "match_src_app (c # cs) =
     (let s = c # cs; rest = drop 7 s; captured = take (length rest - 9) rest in
      if startsWith s ''src/app'' \<and> endsWith rest ''/page.tsx''
         \<and> \<not> list_ex is_line_terminator captured
      then Some captured
      else match_src_app cs)"

text \<open>
  \<open>path.replace(/\/\([^)]+\)/g, "")\<close>: scanning from the left, every \<open>/(\<close> followed by
  one or more characters other than \<open>)\<close> and then \<open>)\<close> is dropped.
\<close>

function remove_route_groups :: "string \<Rightarrow> string" where
  "remove_route_groups [] = []"
| "remove_route_groups (c # cs) =
     (let inner = takeWhile (\<lambda>x. x \<noteq> CHR '')'') (drop 1 cs);
          after = dropWhile (\<lambda>x. x \<noteq> CHR '')'') (drop 1 cs) in
      if c = CHR ''/'' \<and> startsWith cs ''('' \<and> inner \<noteq> [] \<and> after \<noteq> []
      then remove_route_groups (drop 1 after)
      else c # remove_route_groups cs)"
  by pat_completeness auto
termination
proof (relation "measure length")
  show "wf (measure length)" by simp
next
  fix c :: char and cs x xa
  assume "xa = dropWhile (\<lambda>x. x \<noteq> CHR '')'') (drop 1 cs)"
  then have "length (drop 1 xa) \<le> length cs"
    by (metis diff_le_self le_trans length_drop length_dropWhile_le)
  then show "(drop 1 xa, c # cs) \<in> measure length" by simp
next
  fix c :: char and cs x xa
  show "(cs, c # cs) \<in> measure length" by simp
qed

text \<open>
  \<open>path.replace(/\[([^\]]+)\]/g, ":$1")\<close>: every \<open>[\<close>, one or more characters other than
  \<open>]\<close>, \<open>]\<close> becomes a colon and the bracketed text.
\<close>

function dynamic_segments :: "string \<Rightarrow> string" where
  "dynamic_segments [] = []"
| "dynamic_segments (c # cs) =
     (let inner = takeWhile (\<lambda>x. x \<noteq> CHR '']'') cs;
          after = dropWhile (\<lambda>x. x \<noteq> CHR '']'') cs in
      if c = CHR ''['' \<and> inner \<noteq> [] \<and> after \<noteq> []
      then '':'' @ inner @ dynamic_segments (drop 1 after)
      else c # dynamic_segments cs)"
  by pat_completeness auto
termination
proof (relation "measure length")
  show "wf (measure length)" by simp
next
  fix c :: char and cs x xa
  assume "xa = dropWhile (\<lambda>x. x \<noteq> CHR '']'') cs"
  then have "length (drop 1 xa) \<le> length cs"
    by (metis diff_le_self le_trans length_drop length_dropWhile_le)
  then show "(drop 1 xa, c # cs) \<in> measure length" by simp
next
  fix c :: char and cs x xa
  show "(cs, c # cs) \<in> measure length" by simp
qed

definition getSourcePath :: "string \<Rightarrow> string option" where
  "getSourcePath filename =
     (case match_src_app filename of
        None \<Rightarrow> None
      | Some captured \<Rightarrow>
          (let path = remove_route_groups captured in
           if path = [] then Some ''/'' else Some (dynamic_segments path)))"

subsection \<open>Redirect-only bodies and destinations\<close>

definition is_redirect_callee :: "expr \<Rightarrow> bool" where
  "is_redirect_callee callee =
     (case callee of Identifier _ n \<Rightarrow> n = ''redirect'' | _ \<Rightarrow> False)"

text \<open>The \<open>for\<close> loop over the non-empty statements of a block.\<close>

fun only_redirect_statements :: "stmt list \<Rightarrow> bool" where
  "only_redirect_statements [] = True"
| "only_redirect_statements (st # rest) =
     (case st of
        ExpressionStatement _ e \<Rightarrow>
          (case e of
             CallExpression _ callee _ _ \<Rightarrow>
               (if is_redirect_callee callee then only_redirect_statements rest else False)
           | _ \<Rightarrow> False)
      | VariableDeclarationStatement _ \<Rightarrow> only_redirect_statements rest
      | ReturnStatement _ \<Rightarrow> only_redirect_statements rest
      | _ \<Rightarrow> False)"

definition is_empty_statement :: "stmt \<Rightarrow> bool" where
  "is_empty_statement st = (case st of EmptyStatement _ \<Rightarrow> True | _ \<Rightarrow> False)"

definition isOnlyRedirect :: "fbody \<Rightarrow> bool" where
  "isOnlyRedirect body =
     (case body of
        BlockStatement _ sts \<Rightarrow>
          (let statements = filter (\<lambda>st. \<not> is_empty_statement st) sts in
           if length statements = 0 then False
           else if length statements > 2 then False
           else only_redirect_statements statements)
      | ExpressionBody e \<Rightarrow>
          (case e of
             CallExpression _ callee _ _ \<Rightarrow> is_redirect_callee callee
           | _ \<Rightarrow> False))"

text \<open>
  The loop of \<open>extractDestination\<close> over the quasis of a template literal: index \<open>i\<close>
  reads \<open>quasis[i]\<close> and, while there is one, \<open>expressions[i]\<close>.
\<close>

fun template_destination :: "string list \<Rightarrow> expr list \<Rightarrow> string \<Rightarrow> string option" where
  "template_destination [] exprs result = Some result"
| "template_destination (q # quasis) [] result = template_destination quasis [] (result @ q)"
| "template_destination (q # quasis) (e # exprs) result =
     (case e of
        Identifier _ n \<Rightarrow> template_destination quasis exprs (result @ q @ '':'' @ n)
      | AwaitExpression _ a \<Rightarrow>
          (case a of
             CallExpression _ _ _ _ \<Rightarrow> template_destination quasis exprs (result @ q @ '':id'')
           | _ \<Rightarrow> None)
      | _ \<Rightarrow> None)"

definition extractDestination :: "expr list \<Rightarrow> string option" where
  "extractDestination args =
     (case args of
        [] \<Rightarrow> None
      | firstArg # _ \<Rightarrow>
          (case firstArg of
             Literal _ v \<Rightarrow> (case v of LString s \<Rightarrow> Some s | _ \<Rightarrow> None)
           | TemplateLiteral _ quasis exprs \<Rightarrow>
               (if length exprs = 0 \<and> length quasis = 1 then Some (hd quasis)
                else template_destination quasis exprs [])
           | _ \<Rightarrow> None))"

subsection \<open>The per-file state and the visitor\<close>

record redirect_state =
  hasRedirectCall :: bool
  redirectDestination :: "string option"
  isSimpleRedirect :: bool
  redirectNode :: "expr option"

definition redirect_init :: redirect_state where
  "redirect_init =
     \<lparr>hasRedirectCall = False, redirectDestination = None,
      isSimpleRedirect = True, redirectNode = None\<rparr>"

definition is_page_function_declarator :: "declarator \<Rightarrow> bool" where
  "is_page_function_declarator node =
     (case decl_id node of
        BindingIdentifier _ name _ \<Rightarrow>
          endsWith name ''Page''
          \<and> (case decl_init node of
                Some (ArrowFunctionExpression _ _ _ _) \<Rightarrow> True
              | Some (FunctionExpression _ _ _ _) \<Rightarrow> True
              | _ \<Rightarrow> False)
      | _ \<Rightarrow> False)"

definition function_body :: "expr \<Rightarrow> fbody option" where
  "function_body e =
     (case e of
        ArrowFunctionExpression _ _ b _ \<Rightarrow> Some b
      | FunctionExpression _ _ b _ \<Rightarrow> Some b
      | _ \<Rightarrow> None)"

definition redirect_VariableDeclarator :: "redirect_state \<Rightarrow> declarator \<Rightarrow> redirect_state" where
  "redirect_VariableDeclarator st node =
     (if is_page_function_declarator node then
        (case Option.bind (decl_init node) function_body of
           Some body \<Rightarrow> (if \<not> isOnlyRedirect body then st\<lparr>isSimpleRedirect := False\<rparr> else st)
         | None \<Rightarrow> st\<lparr>isSimpleRedirect := False\<rparr>)
      else st)"

definition redirect_CallExpression :: "redirect_state \<Rightarrow> expr \<Rightarrow> redirect_state" where
  "redirect_CallExpression st node =
     (case node of
        CallExpression _ callee _ args \<Rightarrow>
          (if is_redirect_callee callee then
             st\<lparr>hasRedirectCall := True, redirectNode := Some node,
                redirectDestination := extractDestination args\<rparr>
           else st)
      | _ \<Rightarrow> st)"

definition redirect_report :: "expr \<Rightarrow> string \<Rightarrow> string \<Rightarrow> string \<Rightarrow> diagnostic" where
  "redirect_report node mid sourcePath destination =
     \<lparr>d_node = expr_range node, messageId = mid,
      d_data = [(''source'', sourcePath), (''destination'', destination),
                (''permanent'', ''false'')],
      d_fix = None\<rparr>"

definition redirect_Program_exit :: "string \<Rightarrow> redirect_state \<Rightarrow> diagnostic list" where
  "redirect_Program_exit filename st =
     (case (redirectDestination st, redirectNode st) of
        (Some destination, Some node) \<Rightarrow>
          (if hasRedirectCall st \<and> isSimpleRedirect st \<and> destination \<noteq> [] then
             (case getSourcePath filename of
                Some sourcePath \<Rightarrow>
                  (if sourcePath \<noteq> [] then
                     [redirect_report node ''useConfigRedirect'' sourcePath destination,
                      redirect_report node ''showExample'' sourcePath destination]
                   else [])
              | None \<Rightarrow> [])
           else [])
      | _ \<Rightarrow> [])"

section \<open>Rule react-no-redundant-usestate-types\<close>

text \<open>
  The fixes of this rule read tokens with a non-null assertion: a lookup that finds no
  token makes the \<open>fix\<close> callback, and with it the visitor, throw a \<open>TypeError\<close>.
\<close>

definition is_TSUndefinedKeyword :: "ts_type \<Rightarrow> bool" where
  "is_TSUndefinedKeyword t = (case t of TSUndefinedKeyword _ \<Rightarrow> True | _ \<Rightarrow> False)"

definition is_TSNullKeyword :: "ts_type \<Rightarrow> bool" where
  "is_TSNullKeyword t = (case t of TSNullKeyword _ \<Rightarrow> True | _ \<Rightarrow> False)"

definition is_simple_element_type :: "ts_type \<Rightarrow> bool" where
  "is_simple_element_type t =
     (case t of TSStringKeyword _ \<Rightarrow> True | TSNumberKeyword _ \<Rightarrow> True
              | TSBooleanKeyword _ \<Rightarrow> True | _ \<Rightarrow> False)"

definition is_literal :: "expr \<Rightarrow> bool" where
  "is_literal e = (case e of Literal _ _ \<Rightarrow> True | _ \<Rightarrow> False)"

definition literal_value :: "expr \<Rightarrow> lit_value option" where
  "literal_value e = (case e of Literal _ v \<Rightarrow> Some v | _ \<Rightarrow> None)"

definition is_undefined_identifier :: "expr \<Rightarrow> bool" where
  "is_undefined_identifier e = (case e of Identifier _ n \<Rightarrow> n = ''undefined'' | _ \<Rightarrow> False)"

definition is_null_literal :: "expr \<Rightarrow> bool" where
  "is_null_literal e = (literal_value e = Some LNull)"

text \<open>The \<open>if\<close>/\<open>else if\<close> chain that sets \<open>isRedundant\<close>, in its order.\<close>

definition isRedundant :: "string \<Rightarrow> ts_type \<Rightarrow> expr \<Rightarrow> bool" where
  "isRedundant typeText typeParam argument =
     (if typeText = ''boolean'' \<and> is_literal argument then
        (case literal_value argument of Some (LBoolean _) \<Rightarrow> True | _ \<Rightarrow> False)
      else if typeText = ''string'' \<and> is_literal argument
              \<and> (case literal_value argument of Some (LString _) \<Rightarrow> True | _ \<Rightarrow> False)
      then True
      else if typeText = ''number'' \<and> is_literal argument
              \<and> literal_value argument = Some LNumber
      then True
      else if typeText = ''null'' \<and> is_literal argument \<and> literal_value argument = Some LNull
      then True
      else if typeText = ''undefined'' \<and> is_undefined_identifier argument
      then True
      else if (case typeParam of TSArrayType _ _ \<Rightarrow> True | _ \<Rightarrow> False)
              \<and> (case argument of ArrayExpression _ elements \<Rightarrow> length elements = 0
                                 | _ \<Rightarrow> False)
      then (case typeParam of TSArrayType _ elementType \<Rightarrow> is_simple_element_type elementType
                            | _ \<Rightarrow> False)
      else False)"

text \<open>The fix of \<open>redundantSimpleType\<close>: remove everything between the token before and
  the token after the type arguments.\<close>

definition remove_type_arguments_fix :: "source_code \<Rightarrow> type_args \<Rightarrow> error + rule_fix list" where
  "remove_type_arguments_fix sc typeArguments =
     (case (getTokenBefore sc (targs_range typeArguments),
            getTokenAfter sc (targs_range typeArguments)) of
        (Some tokenBefore, Some tokenAfter) \<Rightarrow> Inr [removeRange (snd tokenBefore, fst tokenAfter)]
      | _ \<Rightarrow> Inl TypeError)"

text \<open>The fix shared by \<open>redundantUndefinedUnion\<close> and \<open>preferUndefinedOverNull\<close>.\<close>

definition union_fix ::
  "source_code \<Rightarrow> type_args \<Rightarrow> ts_type \<Rightarrow> expr list \<Rightarrow> expr \<Rightarrow> string \<Rightarrow> error + rule_fix list" where
  "union_fix sc typeArguments typeParam args argument baseTypeText =
     (let first = replaceText (ts_range typeParam) baseTypeText in
      if length args = 1 then
        (case (getTokenAfter sc (targs_range typeArguments),
               getTokenAfter sc (expr_range argument)) of
           (Some openParen, Some closeParen) \<Rightarrow>
             Inr [first, replaceTextRange (fst openParen, snd closeParen) ''()'']
         | _ \<Rightarrow> Inl TypeError)
      else Inr [first])"

definition union_types :: "ts_type \<Rightarrow> ts_type list option" where
  "union_types t = (case t of TSUnionType _ ts \<Rightarrow> Some ts | _ \<Rightarrow> None)"

text \<open>
  Cases 2 and 3: a union with exactly two members, one of them the keyword tested by
  \<open>is_kw\<close>, and \<open>find\<close> yielding the first member that is not that keyword.
\<close>

definition union_case ::
  "source_code \<Rightarrow> range \<Rightarrow> type_args \<Rightarrow> ts_type \<Rightarrow> expr list \<Rightarrow> expr
     \<Rightarrow> (ts_type \<Rightarrow> bool) \<Rightarrow> string \<Rightarrow> error + diagnostic list" where
  "union_case sc node_range typeArguments typeParam args argument is_kw mid =
     (case union_types typeParam of
        None \<Rightarrow> Inr []
      | Some types \<Rightarrow>
          (if list_ex is_kw types \<and> length types = 2 then
             (case find (\<lambda>t. \<not> is_kw t) types of
                None \<Rightarrow> Inr []
              | Some baseType \<Rightarrow>
                  (let baseTypeText = getText (src_text sc) (ts_range baseType) in
                   case union_fix sc typeArguments typeParam args argument baseTypeText of
                     Inl e \<Rightarrow> Inl e
                   | Inr fixes \<Rightarrow>
                       Inr [\<lparr>d_node = node_range, messageId = mid,
                             d_data = [(''baseType'', baseTypeText)],
                             d_fix = Some fixes\<rparr>]))
           else Inr []))"

definition useState_case4 ::
  "source_code \<Rightarrow> type_args \<Rightarrow> ts_type \<Rightarrow> expr list \<Rightarrow> error + diagnostic list" where
  "useState_case4 sc typeArguments typeParam args =
     (if is_TSUndefinedKeyword typeParam \<and> length args = 0 then
        (case remove_type_arguments_fix sc typeArguments of
           Inl e \<Rightarrow> Inl e
         | Inr fixes \<Rightarrow>
             Inr [\<lparr>d_node = targs_range typeArguments, messageId = ''redundantSimpleType'',
                   d_data = [(''type'', ''undefined'')], d_fix = Some fixes\<rparr>])
      else Inr [])"

definition useState_unions ::
  "source_code \<Rightarrow> range \<Rightarrow> type_args \<Rightarrow> ts_type \<Rightarrow> expr list \<Rightarrow> error + diagnostic list" where
  "useState_unions sc node_range typeArguments typeParam args =
     then_report
       (case args of
          argument # _ \<Rightarrow>
            (if is_undefined_identifier argument
             then union_case sc node_range typeArguments typeParam args argument
                    is_TSUndefinedKeyword ''redundantUndefinedUnion''
             else Inr [])
        | [] \<Rightarrow> Inr [])
       (then_report
          (case args of
             argument # _ \<Rightarrow>
               (if is_literal argument \<and> is_null_literal argument
                then union_case sc node_range typeArguments typeParam args argument
                       is_TSNullKeyword ''preferUndefinedOverNull''
                else Inr [])
           | [] \<Rightarrow> Inr [])
          (useState_case4 sc typeArguments typeParam args))"

definition useState_CallExpression :: "source_code \<Rightarrow> expr \<Rightarrow> error + diagnostic list" where
  "useState_CallExpression sc node =
     (case node of
        CallExpression node_range callee typeArgs args \<Rightarrow>
          (if \<not> (case callee of Identifier _ n \<Rightarrow> n = ''useState'' | _ \<Rightarrow> False) then Inr []
           else
             (case typeArgs of
                None \<Rightarrow> Inr []
              | Some typeArguments \<Rightarrow>
                  (case targs_params typeArguments of
                     [] \<Rightarrow> Inr []
                   | typeParam # _ \<Rightarrow>
                       (let typeText = getText (src_text sc) (ts_range typeParam) in
                        case args of
                          argument # _ \<Rightarrow>
                            (if isRedundant typeText typeParam argument then
                               (case remove_type_arguments_fix sc typeArguments of
                                  Inl e \<Rightarrow> Inl e
                                | Inr fixes \<Rightarrow>
                                    Inr [\<lparr>d_node = targs_range typeArguments,
                                          messageId = ''redundantSimpleType'',
                                          d_data = [(''type'', typeText)],
                                          d_fix = Some fixes\<rparr>])
                             else useState_unions sc node_range typeArguments typeParam args)
                        | [] \<Rightarrow> useState_unions sc node_range typeArguments typeParam args))))
      | _ \<Rightarrow> Inr [])"

section \<open>Rule nextjs-page-pattern\<close>

subsection \<open>Nodes of the rule\<close>

record variable_declaration =
  vd_range :: range
  vd_kind :: string
  vd_declarations :: "declarator list"
  vd_parent_type :: string

record function_declaration =
  fd_id :: "string option"
  fd_params :: "param list"
  fd_body :: range
  fd_async :: bool

datatype default_declaration =
    DefaultFunction function_declaration
  | DefaultIdentifier range string
  | DefaultOther string range

record export_default_declaration =
  ed_range :: range
  ed_declaration :: default_declaration

datatype named_declaration =
    NamedVariableDeclaration variable_declaration
  | NamedOther string range

record export_named_declaration =
  en_range :: range
  en_declaration :: "named_declaration option"

subsection \<open>String helpers\<close>

definition newline :: string where
  "newline = [CHR 0x0A]"

text \<open>\<open>s.split(c)\<close> for a one-character separator.\<close>

fun split_on :: "char \<Rightarrow> string \<Rightarrow> string list" where
  "split_on sep [] = [[]]"
| "split_on sep (c # cs) =
     (if c = sep then [] # split_on sep cs
      else (case split_on sep cs of
              w # ws \<Rightarrow> (c # w) # ws
            | [] \<Rightarrow> [[c]]))"

text \<open>
  \<open>toUpperCase\<close> on a one-character string, for the code units below \<open>0x100\<close>. The
  letters \<open>a\<close> to \<open>z\<close> and the lower-case letters from \<open>0xE0\<close> to \<open>0xFE\<close> go to the
  letter \<open>0x20\<close> below them (\<open>0xF7\<close>, the division sign, is no letter and stays);
  \<open>0xDF\<close>, the sharp s, becomes \<open>SS\<close>; every other character stays. The upper-case
  forms of \<open>0xB5\<close>, the micro sign, and of \<open>0xFF\<close> lie above \<open>0xFF\<close>: on these two
  characters the function is not modelled.
\<close>

definition lower_case :: string where
  "lower_case =
     ''abcdefghijklmnopqrstuvwxyz''
     @ [CHR 0xE0, CHR 0xE1, CHR 0xE2, CHR 0xE3, CHR 0xE4, CHR 0xE5, CHR 0xE6, CHR 0xE7,
        CHR 0xE8, CHR 0xE9, CHR 0xEA, CHR 0xEB, CHR 0xEC, CHR 0xED, CHR 0xEE, CHR 0xEF,
        CHR 0xF0, CHR 0xF1, CHR 0xF2, CHR 0xF3, CHR 0xF4, CHR 0xF5, CHR 0xF6,
        CHR 0xF8, CHR 0xF9, CHR 0xFA, CHR 0xFB, CHR 0xFC, CHR 0xFD, CHR 0xFE]"

definition upper_case :: string where
  "upper_case =
     ''ABCDEFGHIJKLMNOPQRSTUVWXYZ''
     @ [CHR 0xC0, CHR 0xC1, CHR 0xC2, CHR 0xC3, CHR 0xC4, CHR 0xC5, CHR 0xC6, CHR 0xC7,
        CHR 0xC8, CHR 0xC9, CHR 0xCA, CHR 0xCB, CHR 0xCC, CHR 0xCD, CHR 0xCE, CHR 0xCF,
        CHR 0xD0, CHR 0xD1, CHR 0xD2, CHR 0xD3, CHR 0xD4, CHR 0xD5, CHR 0xD6,
        CHR 0xD8, CHR 0xD9, CHR 0xDA, CHR 0xDB, CHR 0xDC, CHR 0xDD, CHR 0xDE]"

definition toUpperCase :: "char \<Rightarrow> string" where
  "toUpperCase c =
     (if c = CHR 0xDF then ''SS''
      else case map_of (zip lower_case upper_case) c of
             Some u \<Rightarrow> [u]
           | None \<Rightarrow> [c])"

text \<open>\<open>p.charAt(0).toUpperCase() + p.slice(1)\<close>.\<close>

definition capitalize :: "string \<Rightarrow> string" where
  "capitalize p = (case p of [] \<Rightarrow> [] | c # cs \<Rightarrow> toUpperCase c @ cs)"

fun join :: "string \<Rightarrow> string list \<Rightarrow> string" where
  "join sep [] = []"
| "join sep [x] = x"
| "join sep (x # y # ys) = x @ sep @ join sep (y # ys)"

text \<open>
  \<open>trim\<close> removes white space and line terminators from both ends; below \<open>0x100\<close>
  these are tab, line feed, vertical tab, form feed, carriage return, space and the
  no-break space \<open>0xA0\<close>.
\<close>

definition is_space :: "char \<Rightarrow> bool" where
  "is_space c =
     (c \<in> set [CHR 0x09, CHR 0x0A, CHR 0x0B, CHR 0x0C, CHR 0x0D, CHR 0x20, CHR 0xA0])"

definition trim :: "string \<Rightarrow> string" where
  "trim s = rev (dropWhile is_space (rev (dropWhile is_space s)))"

subsection \<open>The name synthesised from the file's path\<close>

definition pascal_page :: "string \<Rightarrow> string" where
  "pascal_page part = concat (map capitalize (split_on CHR ''-'' part)) @ ''Page''"

text \<open>
  The loop of \<open>generatePageName\<close> from index \<open>length - 3\<close> down to \<open>0\<close>, given the
  parts in that order.
\<close>

fun first_named_part :: "string list \<Rightarrow> string" where
  "first_named_part [] = ''DefaultPage''"
| "first_named_part (part # rest) =
     (if part \<noteq> [] \<and> \<not> startsWith part ''('' \<and> part \<noteq> ''app'' \<and> part \<noteq> ''src''
      then pascal_page part
      else first_named_part rest)"

definition generatePageName :: "string \<Rightarrow> string" where
  "generatePageName filename =
     (let pathParts = split_on CHR ''/'' filename;
          parentDir = (if 2 \<le> length pathParts
                       then Some (pathParts ! (length pathParts - 2)) else None)
      in case parentDir of
           None \<Rightarrow> first_named_part (rev (take (length pathParts - 2) pathParts))
         | Some dir \<Rightarrow>
             (if dir = [] \<or> dir = ''app'' \<or> startsWith dir ''(''
              then first_named_part (rev (take (length pathParts - 2) pathParts))
              else pascal_page dir))"

subsection \<open>The per-file state and the fixes\<close>

record page_state =
  hasNextPageImport :: bool
  defaultExport :: "export_default_declaration option"
  exportedComponents :: "string list"

definition page_init :: page_state where
  "page_init = \<lparr>hasNextPageImport = False, defaultExport = None, exportedComponents = []\<rparr>"

definition nextPage_import :: string where
  \<open>nextPage_import = ''import type { NextPage } from "next";''\<close>

definition add_NextPage_import :: "source_code \<Rightarrow> rule_fix" where
  "add_NextPage_import sc =
     (case find (\<lambda>n. fst n = ''ImportDeclaration'') (src_body sc) of
        Some firstImport \<Rightarrow> insertTextBefore (snd firstImport) (nextPage_import @ newline)
      | None \<Rightarrow> insertTextBeforeRange (0, 0) (nextPage_import @ newline @ newline))"

definition props_type_of :: "source_code \<Rightarrow> param list \<Rightarrow> string" where
  "props_type_of sc params =
     (case params of
        [] \<Rightarrow> []
      | p # _ \<Rightarrow>
          (case param_typeAnnotation p of
             None \<Rightarrow> []
           | Some ta \<Rightarrow>
               (let paramType = getText (src_text sc) ta in
                if startsWith paramType '':'' then trim (drop 1 paramType) else paramType)))"

definition params_text :: "source_code \<Rightarrow> param list \<Rightarrow> string" where
  "params_text sc params = join '', '' (map (\<lambda>p. getText (src_text sc) (param_range p)) params)"

definition fbody_range :: "fbody \<Rightarrow> range" where
  "fbody_range b = (case b of BlockStatement r _ \<Rightarrow> r | ExpressionBody e \<Rightarrow> expr_range e)"

definition page_ImportDeclaration :: "page_state \<Rightarrow> import_declaration \<Rightarrow> page_state" where
  "page_ImportDeclaration st node =
     (if imp_source_value node = ''next''
         \<and> list_ex (\<lambda>spec. case spec of ImportSpecifier _ imported _ \<Rightarrow>
                                          id_name imported = ''NextPage''
                                      | _ \<Rightarrow> False) (imp_specifiers node)
      then st\<lparr>hasNextPageImport := True\<rparr>
      else st)"

definition new_component ::
  "source_code \<Rightarrow> string \<Rightarrow> function_declaration \<Rightarrow> string" where
  "new_component sc suggestedName funcNode =
     (let params = params_text sc (fd_params funcNode);
          body = getText (src_text sc) (fd_body funcNode);
          propsType = props_type_of sc (fd_params funcNode)
      in ''const '' @ suggestedName @ '': NextPage''
         @ (if propsType \<noteq> [] then ''<'' @ propsType @ ''>'' else [])
         @ '' = ''
         @ (if fd_async funcNode then ''async '' else [])
         @ ''('' @ params @ '') => '' @ body @ '';'' @ newline @ newline
         @ ''export default '' @ suggestedName @ '';'')"

definition page_ExportDefaultDeclaration ::
  "string \<Rightarrow> source_code \<Rightarrow> page_state \<Rightarrow> export_default_declaration
     \<Rightarrow> page_state \<times> diagnostic list" where
  "page_ExportDefaultDeclaration filename sc st node =
     (let st' = st\<lparr>defaultExport := Some node\<rparr> in
      case ed_declaration node of
        DefaultFunction funcNode \<Rightarrow>
          (let componentName = (case fd_id funcNode of Some n \<Rightarrow> n | None \<Rightarrow> ''Page'');
               suggestedName =
                 (if componentName = ''Page'' \<or> \<not> endsWith componentName ''Page''
                  then generatePageName filename else componentName)
           in (st',
               [\<lparr>d_node = ed_range node,
                 messageId = ''noExportDefaultFunction'',
                 d_data = [],
                 d_fix = Some ((if \<not> hasNextPageImport st' then [add_NextPage_import sc] else [])
                               @ [replaceText (ed_range node)
                                    (new_component sc suggestedName funcNode)])\<rparr>]))
      | _ \<Rightarrow> (st', []))"

definition is_function_form :: "expr \<Rightarrow> bool" where
  "is_function_form e =
     (case e of ArrowFunctionExpression _ _ _ _ \<Rightarrow> True
              | FunctionExpression _ _ _ _ \<Rightarrow> True
              | _ \<Rightarrow> False)"

definition export_default_statement :: "string \<Rightarrow> string" where
  "export_default_statement componentName =
     newline @ newline @ ''export default '' @ componentName @ '';''"

definition page_ExportNamedDeclaration ::
  "source_code \<Rightarrow> page_state \<Rightarrow> export_named_declaration \<Rightarrow> page_state \<times> diagnostic list" where
  "page_ExportNamedDeclaration sc st node =
     (case en_declaration node of
        Some (NamedVariableDeclaration varDecl) \<Rightarrow>
          (case vd_declarations varDecl of
             [] \<Rightarrow> (st, [])
           | decl # _ \<Rightarrow>
               (case (decl_id decl, decl_init decl) of
                  (BindingIdentifier _ componentName _, Some init) \<Rightarrow>
                    (if endsWith componentName ''Page'' \<and> is_function_form init then
                       (st\<lparr>exportedComponents := exportedComponents st @ [componentName]\<rparr>,
                        [\<lparr>d_node = en_range node,
                          messageId = ''noDirectExport'',
                          d_data = [],
                          d_fix = Some
                            ([replaceText (en_range node)
                                (getText (src_text sc) (vd_range varDecl))]
                             @ (if defaultExport st = None then
                                  (case src_body sc of
                                     [] \<Rightarrow> []
                                   | n # ns \<Rightarrow>
                                       [insertTextAfter (snd (last (n # ns)))
                                          (export_default_statement componentName)])
                                else []))\<rparr>])
                     else (st, []))
                | _ \<Rightarrow> (st, [])))
      | _ \<Rightarrow> (st, []))"

definition badComponentName_fix ::
  "page_state \<Rightarrow> range \<Rightarrow> string \<Rightarrow> string \<Rightarrow> rule_fix list" where
  "badComponentName_fix st id_rng componentName suggestedName =
     [replaceText id_rng suggestedName]
     @ (case defaultExport st of
          Some de \<Rightarrow>
            (case ed_declaration de of
               DefaultIdentifier r n \<Rightarrow>
                 (if n = componentName then [replaceText r suggestedName] else [])
             | _ \<Rightarrow> [])
        | None \<Rightarrow> [])"

definition arrow_props_type :: "source_code \<Rightarrow> expr \<Rightarrow> string" where
  "arrow_props_type sc init =
     (case init of
        ArrowFunctionExpression _ params _ _ \<Rightarrow> props_type_of sc params
      | _ \<Rightarrow> [])"

definition missingNextPageType_fix ::
  "source_code \<Rightarrow> page_state \<Rightarrow> range \<Rightarrow> range option \<Rightarrow> string \<Rightarrow> rule_fix list" where
  "missingNextPageType_fix sc st id_rng typeAnn propsType =
     (if \<not> hasNextPageImport st then [add_NextPage_import sc] else [])
     @ (let typeAnnotation =
              (if propsType \<noteq> [] then '': NextPage<'' @ propsType @ ''>'' else '': NextPage'')
        in case typeAnn of
             Some ta \<Rightarrow> [replaceText ta typeAnnotation]
           | None \<Rightarrow> [insertTextAfter id_rng typeAnnotation])"

definition notArrowFunction_fix :: "source_code \<Rightarrow> expr \<Rightarrow> rule_fix list option" where
  "notArrowFunction_fix sc init =
     (case init of
        FunctionExpression r params body isAsync \<Rightarrow>
          Some [replaceText r
                  ((if isAsync then ''async '' else [])
                   @ ''('' @ params_text sc params @ '') => ''
                   @ getText (src_text sc) (fbody_range body))]
      | _ \<Rightarrow> None)"

definition is_arrow :: "expr \<Rightarrow> bool" where
  "is_arrow e = (case e of ArrowFunctionExpression _ _ _ _ \<Rightarrow> True | _ \<Rightarrow> False)"

text \<open>The body of the loop over the declarators of a \<open>const\<close> declaration.\<close>

definition page_const_declarator ::
  "string \<Rightarrow> source_code \<Rightarrow> page_state \<Rightarrow> declarator \<Rightarrow> diagnostic list" where
  "page_const_declarator filename sc st decl =
     (case (decl_id decl, decl_init decl) of
        (BindingIdentifier id_rng componentName typeAnn, Some init) \<Rightarrow>
          (if endsWith componentName ''Page'' then
             (if componentName = ''Page'' then
                [\<lparr>d_node = id_rng,
                  messageId = ''badComponentName'',
                  d_data = [(''name'', componentName)],
                  d_fix = Some (badComponentName_fix st id_rng componentName
                                  (generatePageName filename))\<rparr>]
              else [])
             @
             (if (case typeAnn of
                    None \<Rightarrow> True
                  | Some ta \<Rightarrow> \<not> str_includes (getText (src_text sc) ta) ''NextPage'')
              then
                [\<lparr>d_node = id_rng,
                  messageId = ''missingNextPageType'',
                  d_data = [],
                  d_fix = Some (missingNextPageType_fix sc st id_rng typeAnn
                                  (arrow_props_type sc init))\<rparr>]
              else [])
             @
             (if \<not> is_arrow init then
                [\<lparr>d_node = expr_range init,
                  messageId = ''notArrowFunction'',
                  d_data = [],
                  d_fix = notArrowFunction_fix sc init\<rparr>]
              else [])
           else [])
      | _ \<Rightarrow> [])"

text \<open>\<open>text.replace(/^(let|var)/, "const")\<close>.\<close>

definition replace_let_var :: "string \<Rightarrow> string" where
  "replace_let_var t =
     (if startsWith t ''let'' then ''const'' @ drop 3 t
      else if startsWith t ''var'' then ''const'' @ drop 3 t
      else t)"

text \<open>The body of the loop over the declarators of a \<open>let\<close> or \<open>var\<close> declaration.\<close>

definition page_let_declarator ::
  "source_code \<Rightarrow> variable_declaration \<Rightarrow> declarator \<Rightarrow> diagnostic list" where
  "page_let_declarator sc node decl =
     (case (decl_id decl, decl_init decl) of
        (BindingIdentifier _ componentName _, Some init) \<Rightarrow>
          (if endsWith componentName ''Page'' then
             [\<lparr>d_node = vd_range node,
               messageId = ''notConst'',
               d_data = [],
               d_fix = Some [replaceText (vd_range node)
                               (replace_let_var (getText (src_text sc) (vd_range node)))]\<rparr>]
           else [])
      | _ \<Rightarrow> [])"

definition page_VariableDeclaration ::
  "string \<Rightarrow> source_code \<Rightarrow> page_state \<Rightarrow> variable_declaration \<Rightarrow> diagnostic list" where
  "page_VariableDeclaration filename sc st node =
     (if vd_kind node = ''const'' \<and> vd_parent_type node \<noteq> ''ExportNamedDeclaration''
      then concat (map (page_const_declarator filename sc st) (vd_declarations node))
      else [])
     @
     (if (vd_kind node = ''let'' \<or> vd_kind node = ''var'')
         \<and> vd_parent_type node \<noteq> ''ExportNamedDeclaration''
      then concat (map (page_let_declarator sc node) (vd_declarations node))
      else [])"

section \<open>The traversal\<close>

text \<open>
  The host walks the tree once and calls each rule's visitor for the node kinds the rule
  registers, in document order. A file is given to a rule as its name, its source-code
  object and the sequence of these visits.
\<close>

datatype visit =
    VisitImportDeclaration import_declaration
  | VisitExportDefaultDeclaration export_default_declaration
  | VisitExportNamedDeclaration export_named_declaration
  | VisitVariableDeclaration variable_declaration
  | VisitVariableDeclarator declarator
  | VisitCallExpression expr

definition insert_visit :: "visit \<Rightarrow> diagnostic list" where
  "insert_visit v = (case v of VisitCallExpression node \<Rightarrow> insert_CallExpression node | _ \<Rightarrow> [])"

definition supabase_no_insert_with_id :: "visit list \<Rightarrow> diagnostic list" where
  "supabase_no_insert_with_id visits = concat (map insert_visit visits)"

definition supabase_visit :: "string \<Rightarrow> visit \<Rightarrow> diagnostic list" where
  "supabase_visit filename v =
     (case v of VisitImportDeclaration node \<Rightarrow> supabase_ImportDeclaration filename node
              | _ \<Rightarrow> [])"

definition supabase_no_direct_imports :: "string \<Rightarrow> visit list \<Rightarrow> diagnostic list" where
  "supabase_no_direct_imports filename visits = concat (map (supabase_visit filename) visits)"

text \<open>A throw in a visitor ends the run of the rule on the file.\<close>

definition lucide_visit :: "source_code \<Rightarrow> visit \<Rightarrow> error + diagnostic list" where
  "lucide_visit sc v =
     (case v of VisitImportDeclaration node \<Rightarrow> lucide_ImportDeclaration sc node | _ \<Rightarrow> Inr [])"

fun lucide_visits :: "source_code \<Rightarrow> visit list \<Rightarrow> error + diagnostic list" where
  "lucide_visits sc [] = Inr []"
| "lucide_visits sc (v # vs) = then_report (lucide_visit sc v) (lucide_visits sc vs)"

definition lucide_icon_suffix :: "source_code \<Rightarrow> visit list \<Rightarrow> error + diagnostic list" where
  "lucide_icon_suffix sc visits = lucide_visits sc visits"

fun useState_visits :: "source_code \<Rightarrow> visit list \<Rightarrow> error + diagnostic list" where
  "useState_visits sc [] = Inr []"
| "useState_visits sc (v # vs) =
     then_report
       (case v of VisitCallExpression node \<Rightarrow> useState_CallExpression sc node | _ \<Rightarrow> Inr [])
       (useState_visits sc vs)"

definition react_no_redundant_usestate_types ::
  "source_code \<Rightarrow> visit list \<Rightarrow> error + diagnostic list" where
  "react_no_redundant_usestate_types sc visits = useState_visits sc visits"

definition redirect_visit :: "redirect_state \<Rightarrow> visit \<Rightarrow> redirect_state" where
  "redirect_visit st v =
     (case v of
        VisitVariableDeclarator node \<Rightarrow> redirect_VariableDeclarator st node
      | VisitCallExpression node \<Rightarrow> redirect_CallExpression st node
      | _ \<Rightarrow> st)"

definition next_no_redirect_only_pages :: "string \<Rightarrow> visit list \<Rightarrow> diagnostic list" where
  "next_no_redirect_only_pages filename visits =
     (if \<not> endsWith filename ''/page.tsx'' then []
      else redirect_Program_exit filename (foldl redirect_visit redirect_init visits))"

definition page_visit ::
  "string \<Rightarrow> source_code \<Rightarrow> page_state \<times> diagnostic list \<Rightarrow> visit
     \<Rightarrow> page_state \<times> diagnostic list" where
  "page_visit filename sc acc v =
     (let st = fst acc; reported = snd acc in
      case v of
        VisitImportDeclaration node \<Rightarrow> (page_ImportDeclaration st node, reported)
      | VisitExportDefaultDeclaration node \<Rightarrow>
          (let res = page_ExportDefaultDeclaration filename sc st node
           in (fst res, reported @ snd res))
      | VisitExportNamedDeclaration node \<Rightarrow>
          (let res = page_ExportNamedDeclaration sc st node
           in (fst res, reported @ snd res))
      | VisitVariableDeclaration node \<Rightarrow>
          (st, reported @ page_VariableDeclaration filename sc st node)
      | _ \<Rightarrow> acc)"

definition nextjs_page_pattern :: "string \<Rightarrow> source_code \<Rightarrow> visit list \<Rightarrow> diagnostic list" where
  "nextjs_page_pattern filename sc visits =
     (if \<not> endsWith filename ''/page.tsx'' then []
      else snd (foldl (page_visit filename sc) (page_init, []) visits))"

section \<open>Applying a fix\<close>

text \<open>
  Modelled from the spec: the Edit Set (section 4.3) is the host's fixer machinery and is
  not part of the repository's sources. Two edits conflict if their half-open ranges
  overlap; merely touching ranges do not. Applying a fix validates its edits, orders them
  by start offset (ties by end offset, as the host does) and concatenates unedited
  prefix, replacement, unedited gap, replacement, ..., unedited suffix. A fix that fails
  validation is dropped: the result is \<open>None\<close>.
\<close>

definition overlap :: "range \<Rightarrow> range \<Rightarrow> bool" where
  "overlap a b = (fst a < snd b \<and> fst b < snd a)"

definition in_bounds :: "string \<Rightarrow> range \<Rightarrow> bool" where
  "in_bounds src r = (fst r \<le> snd r \<and> snd r \<le> length src)"

fun non_overlapping :: "range list \<Rightarrow> bool" where
  "non_overlapping [] = True"
| "non_overlapping (r # rs) = (list_all (\<lambda>q. \<not> overlap r q) rs \<and> non_overlapping rs)"

definition valid_fix :: "string \<Rightarrow> rule_fix list \<Rightarrow> bool" where
  "valid_fix src fixes =
     (list_all (in_bounds src) (map fix_range fixes) \<and> non_overlapping (map fix_range fixes))"

definition fix_le :: "rule_fix \<Rightarrow> rule_fix \<Rightarrow> bool" where
  "fix_le a b =
     (fst (fix_range a) < fst (fix_range b)
      \<or> (fst (fix_range a) = fst (fix_range b) \<and> snd (fix_range a) \<le> snd (fix_range b)))"

fun insert_fix :: "rule_fix \<Rightarrow> rule_fix list \<Rightarrow> rule_fix list" where
  "insert_fix f [] = [f]"
| "insert_fix f (g # gs) = (if fix_le f g then f # g # gs else g # insert_fix f gs)"

fun sort_fixes :: "rule_fix list \<Rightarrow> rule_fix list" where
  "sort_fixes [] = []"
| "sort_fixes (f # fs) = insert_fix f (sort_fixes fs)"

text \<open>Concatenation from offset \<open>pos\<close> on, over edits in order.\<close>

fun apply_from :: "nat \<Rightarrow> string \<Rightarrow> rule_fix list \<Rightarrow> string" where
  "apply_from pos src [] = drop pos src"
| "apply_from pos src (f # fs) =
     take (fst (fix_range f) - pos) (drop pos src) @ fix_text f
     @ apply_from (snd (fix_range f)) src fs"

definition apply_fix :: "string \<Rightarrow> rule_fix list \<Rightarrow> string option" where
  "apply_fix src fixes =
     (if valid_fix src fixes then Some (apply_from 0 src (sort_fixes fixes)) else None)"

text \<open>
  Where the character at offset \<open>i\<close> of the source, outside every edited range, lands in
  the output of \<open>apply_from\<close>.
\<close>

fun offset_from :: "nat \<Rightarrow> rule_fix list \<Rightarrow> nat \<Rightarrow> nat" where
  "offset_from pos [] i = i - pos"
| "offset_from pos (f # fs) i =
     (if i < fst (fix_range f) then i - pos
      else (fst (fix_range f) - pos) + length (fix_text f) + offset_from (snd (fix_range f)) fs i)"

definition new_offset :: "rule_fix list \<Rightarrow> nat \<Rightarrow> nat" where
  "new_offset fixes i = offset_from 0 (sort_fixes fixes) i"

definition edited :: "rule_fix list \<Rightarrow> nat \<Rightarrow> bool" where
  "edited fixes i = list_ex (\<lambda>f. fst (fix_range f) \<le> i \<and> i < snd (fix_range f)) fixes"

section \<open>Example files\<close>


text \<open>\<^verbatim>\<open>table.insert({ "id": 1, ["id"]: 2 })\<close>: the key as a string literal, plain and computed.\<close>

definition insert_string_key_example :: expr where
  "insert_string_key_example =
     CallExpression (0, 36)
       (MemberExpression (0, 12) (Identifier (0, 5) ''table'') (Identifier (6, 12) ''insert''))
       None
       [ObjectExpression (13, 35)
          [Property (15, 22) (Literal (15, 19) (LString ''id'')) False,
           Property (24, 33) (Literal (25, 29) (LString ''id'')) True]]"

text \<open>
  A page whose component only redirects:
  \<^verbatim>\<open>const OldPage = () => { redirect("/login"); };\<close>
\<close>

definition redirect_example_call :: expr where
  "redirect_example_call =
     CallExpression (24, 42) (Identifier (24, 32) ''redirect'') None
       [Literal (33, 41) (LString ''/login'')]"

definition redirect_example_visits :: "visit list" where
  "redirect_example_visits =
     [VisitVariableDeclarator
        (VariableDeclarator (6, 45) (BindingIdentifier (6, 13) ''OldPage'' None)
           (Some (ArrowFunctionExpression (16, 45) []
                    (BlockStatement (22, 45) [ExpressionStatement (24, 43) redirect_example_call])
                    False))),
      VisitCallExpression redirect_example_call]"

text \<open>A visit of a call whose callee is the identifier \<open>redirect\<close>.\<close>

definition is_redirect_visit :: "visit \<Rightarrow> bool" where
  "is_redirect_visit v =
     (case v of
        VisitCallExpression node \<Rightarrow>
          (case node of CallExpression _ callee _ _ \<Rightarrow> is_redirect_callee callee | _ \<Rightarrow> False)
      | _ \<Rightarrow> False)"

text \<open>
  A page that redirects to a destination built from a member access:
  \<^verbatim>\<open>const UserPage = () => { redirect(`/users/${user.id}`); };\<close>
\<close>

definition redirect_member_call :: expr where
  "redirect_member_call =
     CallExpression (25, 54) (Identifier (25, 33) ''redirect'') None
       [TemplateLiteral (34, 53) [''/users/'', '''']
          [MemberExpression (44, 51) (Identifier (44, 48) ''user'') (Identifier (49, 51) ''id'')]]"

definition redirect_member_visits :: "visit list" where
  "redirect_member_visits =
     [VisitVariableDeclarator
        (VariableDeclarator (6, 57) (BindingIdentifier (6, 14) ''UserPage'' None)
           (Some (ArrowFunctionExpression (17, 57) []
                    (BlockStatement (23, 57) [ExpressionStatement (25, 55) redirect_member_call])
                    False))),
      VisitCallExpression redirect_member_call]"

text \<open>
  \<^verbatim>\<open>useState<number | undefined>(undefined)\<close>, as the call is parsed and tokenised when
  it starts at offset \<open>n\<close> of a file.
\<close>

definition useState_text :: string where
  "useState_text = ''useState<number | undefined>(undefined)''"

definition useState_call :: "nat \<Rightarrow> expr" where
  "useState_call n =
     CallExpression (n, n + 39) (Identifier (n, n + 8) ''useState'')
       (Some (TypeArgs (n + 8, n + 28)
                [TSUnionType (n + 9, n + 27)
                   [TSNumberKeyword (n + 9, n + 15), TSUndefinedKeyword (n + 18, n + 27)]]))
       [Identifier (n + 29, n + 38) ''undefined'']"

definition useState_tokens :: "nat \<Rightarrow> range list" where
  "useState_tokens n =
     [(n, n + 8), (n + 8, n + 9), (n + 9, n + 15), (n + 16, n + 17), (n + 18, n + 27),
      (n + 27, n + 28), (n + 28, n + 29), (n + 29, n + 38), (n + 38, n + 39)]"

text \<open>
  An icon import with a plain, an aliased and an already suffixed specifier, and uses:
  \<^verbatim>\<open>import { Home, User as U, StarIcon } from "lucide-react";\<close>
  \<^verbatim>\<open>const a = [Home, U, Home];\<close>
\<close>

definition lucide_example_import :: import_declaration where
  "lucide_example_import =
     \<lparr>imp_range = (0, 57), imp_source_range = (42, 56), imp_source_value = ''lucide-react'',
      imp_specifiers =
        [ImportSpecifier (9, 13) (Ident 1 (9, 13) ''Home'') (Ident 2 (9, 13) ''Home''),
         ImportSpecifier (15, 24) (Ident 3 (15, 19) ''User'') (Ident 4 (23, 24) ''U''),
         ImportSpecifier (26, 34) (Ident 5 (26, 34) ''StarIcon'') (Ident 6 (26, 34) ''StarIcon'')]\<rparr>"

definition lucide_example_source :: source_code where
  \<open>lucide_example_source =
     \<lparr>src_text = ''import { Home, User as U, StarIcon } from "lucide-react";'' @ newline
                   @ ''const a = [Home, U, Home];'',
      src_tokens = [],
      src_body = [(''ImportDeclaration'', (0, 57)), (''VariableDeclaration'', (58, 84))],
      src_declaredVariables =
        (\<lambda>_. [\<lparr>var_name = ''Home'',
                  var_references = [Ident 7 (69, 73) ''Home'', Ident 9 (78, 82) ''Home'']\<rparr>,
                \<lparr>var_name = ''U'', var_references = [Ident 8 (75, 76) ''U'']\<rparr>,
                \<lparr>var_name = ''StarIcon'', var_references = []\<rparr>])\<rparr>\<close>

text \<open>A visit of an import declaration that imports \<open>NextPage\<close> from \<open>next\<close>.\<close>

definition imports_NextPage :: "visit \<Rightarrow> bool" where
  "imports_NextPage v =
     (case v of
        VisitImportDeclaration node \<Rightarrow>
          imp_source_value node = ''next''
          \<and> ''NextPage'' \<in> set (importedNames (imp_specifiers node))
      | _ \<Rightarrow> False)"

text \<open>
  A page file holding only \<^verbatim>\<open>export default function Home() { return <x/>; }\<close>.
\<close>

definition home_page_source :: source_code where
  "home_page_source =
     \<lparr>src_text = ''export default function Home() { return <x/>; }'',
      src_tokens = [],
      src_body = [(''ExportDefaultDeclaration'', (0, 47))],
      src_declaredVariables = (\<lambda>_. [])\<rparr>"

definition home_page_visits :: "visit list" where
  "home_page_visits =
     [VisitExportDefaultDeclaration
        \<lparr>ed_range = (0, 47),
         ed_declaration = DefaultFunction
           \<lparr>fd_id = Some ''Home'', fd_params = [], fd_body = (31, 47), fd_async = False\<rparr>\<rparr>]"

section \<open>The plugin's rule table\<close>

text \<open>The six rules the plugin registers, and a run of one of them over a file.\<close>

datatype rule_name =
    LucideIconSuffix
  | SupabaseNoDirectImports
  | SupabaseNoInsertWithId
  | ReactNoRedundantUsestateTypes
  | NextNoRedirectOnlyPages
  | NextjsPagePattern

definition run_rule ::
  "rule_name \<Rightarrow> string \<Rightarrow> source_code \<Rightarrow> visit list \<Rightarrow> error + diagnostic list" where
  "run_rule rule filename sc visits =
     (case rule of
        LucideIconSuffix \<Rightarrow> lucide_icon_suffix sc visits
      | SupabaseNoDirectImports \<Rightarrow> Inr (supabase_no_direct_imports filename visits)
      | SupabaseNoInsertWithId \<Rightarrow> Inr (supabase_no_insert_with_id visits)
      | ReactNoRedundantUsestateTypes \<Rightarrow> react_no_redundant_usestate_types sc visits
      | NextNoRedirectOnlyPages \<Rightarrow> Inr (next_no_redirect_only_pages filename visits)
      | NextjsPagePattern \<Rightarrow> Inr (nextjs_page_pattern filename sc visits))"

section \<open>Well-formed input\<close>

text \<open>
  What the parser and the scope manager guarantee about the positions the fixes use:
  ranges lie in the text, a child lies inside its parent, siblings and distinct
  identifiers do not overlap, and tokens come in document order.
\<close>

definition tokens_ok :: "source_code \<Rightarrow> bool" where
  "tokens_ok sc =
     (list_all (in_bounds (src_text sc)) (src_tokens sc)
      \<and> sorted_wrt (\<lambda>t u. snd t \<le> fst u) (src_tokens sc))"


text \<open>The top-level import declarations are non-empty, in the text and apart from \<open>r\<close>.\<close>

definition imports_apart :: "source_code \<Rightarrow> range \<Rightarrow> bool" where
  "imports_apart sc r =
     list_all (\<lambda>b. fst b = ''ImportDeclaration'' \<longrightarrow>
                  in_bounds (src_text sc) (snd b) \<and> fst (snd b) < snd (snd b)
                  \<and> \<not> overlap (snd b) r)
       (src_body sc)"

text \<open>
  A call with type arguments: the first type parameter lies inside the type arguments
  and the first argument after them.
\<close>

definition wf_call :: "source_code \<Rightarrow> expr \<Rightarrow> bool" where
  "wf_call sc node =
     (case node of
        CallExpression _ _ (Some typeArguments) args \<Rightarrow>
          fst (targs_range typeArguments) \<le> snd (targs_range typeArguments)
          \<and> (case targs_params typeArguments of
                [] \<Rightarrow> True
              | typeParam # _ \<Rightarrow>
                  in_bounds (src_text sc) (ts_range typeParam)
                  \<and> fst (targs_range typeArguments) \<le> fst (ts_range typeParam)
                  \<and> snd (ts_range typeParam) \<le> snd (targs_range typeArguments))
          \<and> (case args of
                [] \<Rightarrow> True
              | argument # _ \<Rightarrow>
                  snd (targs_range typeArguments) \<le> fst (expr_range argument)
                  \<and> fst (expr_range argument) \<le> snd (expr_range argument))
      | _ \<Rightarrow> True)"

text \<open>
  An import declaration: the source literal lies in the text; the references of the
  declared variables are distinct identifiers in the text, apart from each other and
  from the imported identifiers of the specifiers.
\<close>

definition wf_import :: "source_code \<Rightarrow> import_declaration \<Rightarrow> bool" where
  "wf_import sc node =
     (let refs = map id_range (concat (map var_references (src_declaredVariables sc node))) in
      in_bounds (src_text sc) (imp_source_range node)
      \<and> list_all (in_bounds (src_text sc)) refs
      \<and> non_overlapping refs
      \<and> list_all (\<lambda>spec. case spec of
                            ImportSpecifier _ imported _ \<Rightarrow>
                              in_bounds (src_text sc) (id_range imported)
                              \<and> list_all (\<lambda>r. \<not> overlap (id_range imported) r) refs
                          | _ \<Rightarrow> True)
           (imp_specifiers node))"

text \<open>The identifiers exported by the \<open>export default\<close> statements of the file.\<close>

definition default_identifier_ranges :: "visit list \<Rightarrow> range list" where
  "default_identifier_ranges visits =
     concat (map (\<lambda>v. case v of
                         VisitExportDefaultDeclaration node \<Rightarrow>
                           (case ed_declaration node of DefaultIdentifier r _ \<Rightarrow> [r] | _ \<Rightarrow> [])
                       | _ \<Rightarrow> []) visits)"

text \<open>
  A declarator inside the declaration at \<open>parent\<close>: the identifier lies inside the
  declaration, its type annotation inside the identifier node, the initialiser in the
  text, and the identifier apart from the default-exported identifiers.
\<close>

definition wf_declarator :: "source_code \<Rightarrow> range \<Rightarrow> range list \<Rightarrow> declarator \<Rightarrow> bool" where
  "wf_declarator sc parent defaults decl =
     ((case decl_id decl of
         BindingIdentifier id_rng _ typeAnn \<Rightarrow>
           in_bounds (src_text sc) id_rng
           \<and> fst parent \<le> fst id_rng \<and> snd id_rng \<le> snd parent
           \<and> (case typeAnn of
                 Some ta \<Rightarrow> fst ta \<le> snd ta \<and> fst id_rng \<le> fst ta \<and> snd ta \<le> snd id_rng
               | None \<Rightarrow> True)
           \<and> list_all (\<lambda>r. \<not> overlap id_rng r) defaults
       | _ \<Rightarrow> True)
      \<and> (case decl_init decl of
            Some init \<Rightarrow> in_bounds (src_text sc) (expr_range init)
          | None \<Rightarrow> True))"

definition wf_visit :: "source_code \<Rightarrow> visit list \<Rightarrow> visit \<Rightarrow> bool" where
  "wf_visit sc visits v =
     (case v of
        VisitImportDeclaration node \<Rightarrow> wf_import sc node
      | VisitExportDefaultDeclaration node \<Rightarrow>
          in_bounds (src_text sc) (ed_range node)
          \<and> imports_apart sc (ed_range node)
          \<and> (case ed_declaration node of
                DefaultIdentifier r _ \<Rightarrow> in_bounds (src_text sc) r
              | _ \<Rightarrow> True)
      | VisitExportNamedDeclaration node \<Rightarrow>
          in_bounds (src_text sc) (en_range node)
          \<and> (case src_body sc of
                [] \<Rightarrow> True
              | b # bs \<Rightarrow>
                  snd (en_range node) \<le> snd (snd (last (b # bs)))
                  \<and> in_bounds (src_text sc) (snd (last (b # bs))))
      | VisitVariableDeclaration node \<Rightarrow>
          in_bounds (src_text sc) (vd_range node)
          \<and> imports_apart sc (vd_range node)
          \<and> list_all (wf_declarator sc (vd_range node) (default_identifier_ranges visits))
                (vd_declarations node)
      | VisitVariableDeclarator _ \<Rightarrow> True
      | VisitCallExpression node \<Rightarrow> wf_call sc node)"

definition well_formed :: "source_code \<Rightarrow> visit list \<Rightarrow> bool" where
  "well_formed sc visits = (tokens_ok sc \<and> list_all (wf_visit sc visits) visits)"








text \<open>\<^verbatim>\<open>table.insert([{ "id": 1 }])\<close>: a batch whose element has the key as a string literal.\<close>

definition insert_batch_string_key_example :: expr where
  "insert_batch_string_key_example =
     CallExpression (0, 27)
       (MemberExpression (0, 12) (Identifier (0, 5) ''table'') (Identifier (6, 12) ''insert''))
       None
       [ArrayExpression (13, 26)
          [Some (ObjectExpression (14, 25)
                   [Property (16, 23) (Literal (16, 20) (LString ''id'')) False])]]"


text \<open>
  An icon import with a string-literal export name:
  \<^verbatim>\<open>import { Home, "a-b" as X } from "lucide-react";\<close>
\<close>

definition lucide_string_import :: import_declaration where
  "lucide_string_import =
     \<lparr>imp_range = (0, 48), imp_source_range = (33, 47), imp_source_value = ''lucide-react'',
      imp_specifiers =
        [ImportSpecifier (9, 13) (Ident 1 (9, 13) ''Home'') (Ident 2 (9, 13) ''Home''),
         ImportSpecifierLiteral (15, 25) (15, 20) ''a-b'' (Ident 3 (24, 25) ''X'')]\<rparr>"

definition lucide_string_source :: source_code where
  \<open>lucide_string_source =
     \<lparr>src_text = ''import { Home, "a-b" as X } from "lucide-react";'',
      src_tokens = [],
      src_body = [(''ImportDeclaration'', (0, 48))],
      src_declaredVariables =
        (\<lambda>_. [\<lparr>var_name = ''Home'', var_references = []\<rparr>,
                \<lparr>var_name = ''X'', var_references = []\<rparr>])\<rparr>\<close>




text \<open>
  A page component named \<open>Page\<close>, \<^verbatim>\<open>const Page = () => null;\<close>. In the directory
  \<open>home\<close> the fix of its \<open>badComponentName\<close> diagnostic gives the declaration of
  \<open>const_page_source\<close>.
\<close>

definition plain_page_source :: source_code where
  "plain_page_source =
     \<lparr>src_text = ''const Page = () => null;'',
      src_tokens = [(0, 5), (6, 10), (11, 12), (13, 14), (14, 15), (16, 18), (19, 23), (23, 24)],
      src_body = [(''VariableDeclaration'', (0, 24))],
      src_declaredVariables = (\<lambda>_. [])\<rparr>"

definition plain_page_declarator :: declarator where
  "plain_page_declarator =
     VariableDeclarator (6, 23) (BindingIdentifier (6, 10) ''Page'' None)
       (Some (ArrowFunctionExpression (13, 23) []
                (ExpressionBody (Literal (19, 23) LNull)) False))"




chapter \<open>Verified properties\<close>

section \<open>Reports in sequence\<close>

lemma then_report_Inr:
  "then_report a b = Inr ds \<Longrightarrow> \<exists>da db. a = Inr da \<and> b = Inr db \<and> ds = da @ db"
  by (auto simp: then_report_def split: sum.splits)

section \<open>supabase-no-insert-with-id\<close>

lemma prop_is_id_iff:
  "prop_is_id p \<longleftrightarrow> (\<exists>pr kr c. p = Property pr (Identifier kr ''id'') c)"
  by (auto simp: prop_is_id_def key_name_def split: property.splits expr.splits)

lemma hasId_iff:
  "hasId props \<longleftrightarrow> (\<exists>pr kr c. Property pr (Identifier kr ''id'') c \<in> set props)"
  unfolding hasId_def list_ex_iff prop_is_id_iff by blast

lemma insert_elements_map:
  "insert_elements elements =
     map (\<lambda>el. report_noInsertWithId (expr_range (the el)))
       (filter (\<lambda>el. \<exists>er props. el = Some (ObjectExpression er props)
                  \<and> (\<exists>pr kr c. Property pr (Identifier kr ''id'') c \<in> set props)) elements)"
proof (induction elements)
  case Nil
  then show ?case by simp
next
  case (Cons el els)
  show ?case
  proof (cases el)
    case None
    with Cons show ?thesis by simp
  next
    case (Some e)
    with Cons show ?thesis
      by (cases e) (simp_all add: hasId_iff)
  qed
qed

lemma insert_elements_no_fix: "\<forall>d \<in> set (insert_elements els). d_fix d = None"
  by (simp add: insert_elements_map report_noInsertWithId_def)

lemma is_insert_callee_iff:
  "is_insert_callee callee \<longleftrightarrow> (\<exists>mr obj pr. callee = MemberExpression mr obj (Identifier pr ''insert''))"
  by (auto simp: is_insert_callee_def split: expr.splits)

lemma insert_call_other_callee:
  "\<not> is_insert_callee callee \<Longrightarrow> insert_CallExpression (CallExpression r callee targs args) = []"
  by (simp add: insert_CallExpression_def)


lemma insert_call_object:
  "is_insert_callee callee \<Longrightarrow>
   insert_CallExpression (CallExpression r callee targs (ObjectExpression orng props # rest))
     = (if hasId props then [report_noInsertWithId orng] else [])"
  by (simp add: insert_CallExpression_def)


text \<open>
  The rule reads the key of a property as an identifier too, under the comment
  \<open>Check if any property is named 'id'\<close>: an element that names \<open>id\<close> by a string
  literal is passed over. The statement below leaves such elements out.
\<close>

lemma insert_batch_string_key_unreported:
  "insert_CallExpression insert_batch_string_key_example = []"
  by (simp add: insert_batch_string_key_example_def insert_CallExpression_def
        is_insert_callee_def hasId_def prop_is_id_def key_name_def)



text \<open>
  C10. The rule matches the property \<open>id\<close> by an identifier key only. A call, of
  whatever callee, whose first argument is an object literal none of whose properties
  has the identifier \<open>id\<close> as its key node is not reported: so when \<open>id\<close> is written with
  a string-literal key, plain or computed, as in \<^verbatim>\<open>table.insert({ "id": 1, ["id"]: 2 })\<close>.
  When the callee is a member access whose property node is the identifier \<open>insert\<close>,
  that is the only case in which such a call is not reported.
\<close>

theorem insert_matches_id_by_identifier_key_only:
  "((\<forall>p \<in> set props. \<forall>prng key computed.
        p = Property prng key computed \<longrightarrow> (\<forall>kr. key \<noteq> Identifier kr ''id''))
     \<longrightarrow> insert_CallExpression
           (CallExpression r callee targs (ObjectExpression orng props # rest)) = [])
   \<and> (callee = MemberExpression mr obj (Identifier pr ''insert'') \<longrightarrow>
        (insert_CallExpression
           (CallExpression r callee targs (ObjectExpression orng props # rest)) = []
         \<longleftrightarrow> (\<forall>p \<in> set props. \<forall>prng key computed.
                p = Property prng key computed \<longrightarrow> (\<forall>kr. key \<noteq> Identifier kr ''id''))))"
proof (intro conjI impI)
  assume "\<forall>p \<in> set props. \<forall>prng key computed.
            p = Property prng key computed \<longrightarrow> (\<forall>kr. key \<noteq> Identifier kr ''id'')"
  then have no: "\<not> hasId props"
    unfolding hasId_iff by blast
  show "insert_CallExpression
          (CallExpression r callee targs (ObjectExpression orng props # rest)) = []"
  proof (cases "is_insert_callee callee")
    case True
    with no show ?thesis by (simp add: insert_call_object)
  next
    case False
    then show ?thesis by (rule insert_call_other_callee)
  qed
next
  assume "callee = MemberExpression mr obj (Identifier pr ''insert'')"
  then have "is_insert_callee callee"
    unfolding is_insert_callee_iff by blast
  then have "(insert_CallExpression
                (CallExpression r callee targs (ObjectExpression orng props # rest)) = [])
           \<longleftrightarrow> \<not> hasId props"
    by (simp add: insert_call_object)
  then show "insert_CallExpression
           (CallExpression r callee targs (ObjectExpression orng props # rest)) = []
         \<longleftrightarrow> (\<forall>p \<in> set props. \<forall>prng key computed.
                p = Property prng key computed \<longrightarrow> (\<forall>kr. key \<noteq> Identifier kr ''id''))"
    unfolding hasId_iff by blast
qed

theorem insert_string_key_witness:
  "insert_CallExpression insert_string_key_example = []"
proof -
  have "\<forall>p \<in> set [Property (15, 22) (Literal (15, 19) (LString ''id'')) False,
                    Property (24, 33) (Literal (25, 29) (LString ''id'')) True].
          \<forall>prng key computed. p = Property prng key computed \<longrightarrow> (\<forall>kr. key \<noteq> Identifier kr ''id'')"
    by simp
  with insert_matches_id_by_identifier_key_only
         [where props = "[Property (15, 22) (Literal (15, 19) (LString ''id'')) False,
                          Property (24, 33) (Literal (25, 29) (LString ''id'')) True]"
            and callee = "MemberExpression (0, 12) (Identifier (0, 5) ''table'')
                            (Identifier (6, 12) ''insert'')"
            and r = "(0, 36)" and targs = None and orng = "(13, 35)" and rest = "[]",
          THEN conjunct1]
  show ?thesis
    unfolding insert_string_key_example_def by blast
qed

section \<open>supabase-no-direct-imports\<close>




section \<open>next-no-redirect-only-pages\<close>

lemma match_src_app_skip:
  "(\<forall>i < length p. \<not> startsWith (drop i (p @ s)) ''src/app'') \<Longrightarrow>
     match_src_app (p @ s) = match_src_app s"
proof (induction p)
  case Nil
  then show ?case by simp
next
  case (Cons c p)
  have "\<not> startsWith (drop 0 ((c # p) @ s)) ''src/app''"
    using Cons.prems by blast
  then have 0: "\<not> startsWith (c # p @ s) ''src/app''" by simp
  have "\<forall>i < length p. \<not> startsWith (drop i (p @ s)) ''src/app''"
  proof (intro allI impI)
    fix i assume "i < length p"
    then have "Suc i < length (c # p)" by simp
    with Cons.prems have "\<not> startsWith (drop (Suc i) ((c # p) @ s)) ''src/app''" by blast
    then show "\<not> startsWith (drop i (p @ s)) ''src/app''" by simp
  qed
  with Cons.IH have "match_src_app (p @ s) = match_src_app s" by blast
  with 0 show ?case by (simp add: Let_def)
qed

lemma old_path_route:
  "getSourcePath ''src/app/(marketing)/old-path/page.tsx'' = Some ''/old-path''"
  by (simp add: getSourcePath_def startsWith_def endsWith_def is_line_terminator_def Let_def)

lemma endsWith_append: "endsWith s p \<Longrightarrow> endsWith (q @ s) p"
  by (auto simp: endsWith_def)

text \<open>
  C4, as stated, fails: the route is taken from the part of the path after \<open>src/app\<close>,
  so for the directory \<open>/app/(marketing)/old-path\<close> of the claim, which has no \<open>src\<close>
  segment, no route is derived and the redirect-only page is not reported.
\<close>

theorem redirect_only_page_outside_src_unreported:
  "next_no_redirect_only_pages ''/app/(marketing)/old-path/page.tsx'' redirect_example_visits = []"
  by (simp add: next_no_redirect_only_pages_def redirect_Program_exit_def getSourcePath_def
        redirect_example_visits_def redirect_example_call_def redirect_visit_def
        redirect_init_def redirect_VariableDeclarator_def redirect_CallExpression_def
        is_page_function_declarator_def function_body_def isOnlyRedirect_def
        is_empty_statement_def is_redirect_callee_def extractDestination_def
        startsWith_def endsWith_def Let_def)

text \<open>
  C4, amended. For a file whose path ends in \<open>src/app/(marketing)/old-path/page.tsx\<close>,
  this being the first occurrence of \<open>src/app\<close> in the path, and whose page component
  (a constant whose name ends in \<open>Page\<close>, initialised with an arrow function) has a body
  that consists only of the call \<^verbatim>\<open>redirect("/login")\<close>, the rule emits at the end of
  the traversal exactly two diagnostics, \<open>useConfigRedirect\<close> and \<open>showExample\<close>, both
  anchored at the call, both with destination \<open>/login\<close> and source \<open>/old-path\<close>, and
  neither with a fix.
\<close>

theorem redirect_only_page_reported:
  assumes "\<forall>i < length root.
             \<not> startsWith (drop i (root @ ''src/app/(marketing)/old-path/page.tsx'')) ''src/app''"
      and "endsWith name ''Page''"
      and "call = CallExpression cr (Identifier ir ''redirect'') targs [Literal lr (LString ''/login'')]"
      and "decl = VariableDeclarator dr (BindingIdentifier br name ann)
                    (Some (ArrowFunctionExpression fr ps
                             (BlockStatement blr [ExpressionStatement sr call]) isAsync))"
  shows "next_no_redirect_only_pages (root @ ''src/app/(marketing)/old-path/page.tsx'')
           [VisitVariableDeclarator decl, VisitCallExpression call] =
         [\<lparr>d_node = cr, messageId = ''useConfigRedirect'',
           d_data = [(''source'', ''/old-path''), (''destination'', ''/login''),
                     (''permanent'', ''false'')],
           d_fix = None\<rparr>,
          \<lparr>d_node = cr, messageId = ''showExample'',
           d_data = [(''source'', ''/old-path''), (''destination'', ''/login''),
                     (''permanent'', ''false'')],
           d_fix = None\<rparr>]"
proof -
  let ?file = "root @ ''src/app/(marketing)/old-path/page.tsx''"
  have route: "getSourcePath ?file = Some ''/old-path''"
    using match_src_app_skip [OF assms(1)] old_path_route
    by (simp add: getSourcePath_def)
  have "endsWith ''src/app/(marketing)/old-path/page.tsx'' ''/page.tsx''"
    by (simp add: endsWith_def)
  then have page: "endsWith ?file ''/page.tsx''"
    by (rule endsWith_append)
  have st: "foldl redirect_visit redirect_init
              [VisitVariableDeclarator decl, VisitCallExpression call] =
            \<lparr>hasRedirectCall = True, redirectDestination = Some ''/login'',
             isSimpleRedirect = True, redirectNode = Some call\<rparr>"
    using assms(2)
    by (simp add: assms(3,4) redirect_visit_def redirect_init_def redirect_VariableDeclarator_def
          redirect_CallExpression_def is_page_function_declarator_def function_body_def
          isOnlyRedirect_def is_empty_statement_def is_redirect_callee_def
          extractDestination_def)
  show ?thesis
    unfolding next_no_redirect_only_pages_def st
    using page route
    by (simp add: redirect_Program_exit_def redirect_report_def assms(3))
qed

theorem redirect_only_page_witness:
  "next_no_redirect_only_pages ''/repo/src/app/(marketing)/old-path/page.tsx''
     redirect_example_visits =
   [\<lparr>d_node = (24, 42), messageId = ''useConfigRedirect'',
     d_data = [(''source'', ''/old-path''), (''destination'', ''/login''),
               (''permanent'', ''false'')],
     d_fix = None\<rparr>,
    \<lparr>d_node = (24, 42), messageId = ''showExample'',
     d_data = [(''source'', ''/old-path''), (''destination'', ''/login''),
               (''permanent'', ''false'')],
     d_fix = None\<rparr>]"
proof -
  have 1: "\<forall>i < length ''/repo/''.
             \<not> startsWith (drop i (''/repo/'' @ ''src/app/(marketing)/old-path/page.tsx'')) ''src/app''"
    by (simp add: startsWith_def less_Suc_eq)
  have 2: "endsWith ''OldPage'' ''Page''"
    by (simp add: endsWith_def)
  show ?thesis
    using redirect_only_page_reported [OF 1 2 refl refl,
        where cr = "(24, 42)" and ir = "(24, 32)" and targs = None and lr = "(33, 41)"
          and dr = "(6, 45)" and br = "(6, 13)" and ann = None and fr = "(16, 45)"
          and ps = "[]" and blr = "(22, 45)" and sr = "(24, 43)" and isAsync = False]
    by (simp add: redirect_example_visits_def redirect_example_call_def)
qed

lemma template_destination_complex:
  assumes "length exprs \<le> length quasis"
      and "\<exists>e \<in> set exprs. (\<forall>r n. e \<noteq> Identifier r n)
             \<and> (\<forall>r r' c t a. e \<noteq> AwaitExpression r (CallExpression r' c t a))"
  shows "template_destination quasis exprs acc = None"
  using assms
proof (induction quasis exprs acc rule: template_destination.induct)
  case (1 exprs result)
  then show ?case by simp
next
  case (2 q quasis result)
  then show ?case by simp
next
  case (3 q quasis e exprs result)
  show ?case
  proof (cases "(\<forall>r n. e \<noteq> Identifier r n)
             \<and> (\<forall>r r' c t a. e \<noteq> AwaitExpression r (CallExpression r' c t a))")
    case True
    then show ?thesis
      by (cases e) (auto split: expr.splits)
  next
    case False
    with "3.prems" have rest: "length exprs \<le> length quasis"
      "\<exists>e \<in> set exprs. (\<forall>r n. e \<noteq> Identifier r n)
             \<and> (\<forall>r r' c t a. e \<noteq> AwaitExpression r (CallExpression r' c t a))"
      by auto
    from False show ?thesis
    proof (cases e)
      case (Identifier r n)
      then show ?thesis using "3.IH"(1) rest by simp
    next
      case (AwaitExpression r a)
      with False obtain r' c t args where a: "a = CallExpression r' c t args"
        by auto
      then show ?thesis using "3.IH"(2) rest AwaitExpression by simp
    qed auto
  qed
qed

lemma redirect_visit_keeps_destination:
  assumes "\<not> is_redirect_visit v"
  shows "redirectDestination (redirect_visit st v) = redirectDestination st"
proof (cases v)
  case (VisitVariableDeclarator node)
  then show ?thesis
    by (simp add: redirect_visit_def redirect_VariableDeclarator_def split: option.splits)
next
  case (VisitCallExpression node)
  with assms show ?thesis
    by (auto simp: redirect_visit_def redirect_CallExpression_def is_redirect_visit_def
          split: expr.splits)
qed (simp_all add: redirect_visit_def)

lemma foldl_keeps_destination:
  assumes "\<forall>v \<in> set vs. \<not> is_redirect_visit v"
  shows "redirectDestination (foldl redirect_visit st vs) = redirectDestination st"
  using assms
  by (induction vs arbitrary: st) (simp_all add: redirect_visit_keeps_destination)

lemma exit_without_destination:
  "redirectDestination st = None \<Longrightarrow> redirect_Program_exit filename st = []"
  by (simp add: redirect_Program_exit_def)

text \<open>
  C8. If the only call to \<open>redirect\<close> visited in a page file has as first argument a
  template literal (with one more quasi than expressions, as the parser builds it) in
  which some interpolated expression is neither an identifier nor an \<open>await\<close> of a call
  expression, the rule emits no diagnostic for the file.
\<close>

theorem unextractable_destination_suppresses_report:
  assumes "length quasis = Suc (length exprs)"
      and "\<exists>e \<in> set exprs. (\<forall>r n. e \<noteq> Identifier r n)
             \<and> (\<forall>r r' c t a. e \<noteq> AwaitExpression r (CallExpression r' c t a))"
      and "call = CallExpression cr (Identifier ir ''redirect'') targs
                    (TemplateLiteral tr quasis exprs # rest)"
      and "\<forall>v \<in> set (before @ after). \<not> is_redirect_visit v"
  shows "next_no_redirect_only_pages filename (before @ [VisitCallExpression call] @ after) = []"
proof -
  have "exprs \<noteq> []" using assms(2) by auto
  moreover have "template_destination quasis exprs [] = None"
    using assms(1,2) by (intro template_destination_complex) simp_all
  ultimately have "extractDestination (TemplateLiteral tr quasis exprs # rest) = None"
    by (simp add: extractDestination_def)
  then have "redirectDestination
               (redirect_visit (foldl redirect_visit redirect_init before)
                  (VisitCallExpression call)) = None"
    by (simp add: redirect_visit_def redirect_CallExpression_def is_redirect_callee_def assms(3))
  moreover have "\<forall>v \<in> set after. \<not> is_redirect_visit v"
    using assms(4) by simp
  ultimately have "redirectDestination
      (foldl redirect_visit redirect_init (before @ [VisitCallExpression call] @ after)) = None"
    by (simp add: foldl_keeps_destination)
  then show ?thesis
    by (simp add: next_no_redirect_only_pages_def exit_without_destination)
qed

theorem unextractable_destination_witness:
  "next_no_redirect_only_pages ''/repo/src/app/old/page.tsx'' redirect_member_visits = []"
proof -
  have 1: "length [''/users/'', []] =
             Suc (length [MemberExpression (44, 51) (Identifier (44, 48) ''user'')
                            (Identifier (49, 51) ''id'')])"
    by simp
  have 2: "\<exists>e \<in> set [MemberExpression (44, 51) (Identifier (44, 48) ''user'')
                         (Identifier (49, 51) ''id'')].
             (\<forall>r n. e \<noteq> Identifier r n)
             \<and> (\<forall>r r' c t a. e \<noteq> AwaitExpression r (CallExpression r' c t a))"
    by simp
  have 3: "\<forall>v \<in> set ([VisitVariableDeclarator
        (VariableDeclarator (6, 57) (BindingIdentifier (6, 14) ''UserPage'' None)
           (Some (ArrowFunctionExpression (17, 57) []
                    (BlockStatement (23, 57) [ExpressionStatement (25, 55) redirect_member_call])
                    False)))] @ []). \<not> is_redirect_visit v"
    by (simp add: is_redirect_visit_def)
  show ?thesis
    using unextractable_destination_suppresses_report [OF 1 2 refl 3,
        where cr = "(25, 54)" and ir = "(25, 33)" and targs = None and tr = "(34, 53)"
          and rest = "[]" and filename = "''/repo/src/app/old/page.tsx''"]
    by (simp add: redirect_member_visits_def redirect_member_call_def)
qed

section \<open>react-no-redundant-usestate-types\<close>

lemma find_append_none:
  "\<forall>x \<in> set xs. \<not> P x \<Longrightarrow> find P (xs @ ys) = find P ys"
  by (induction xs) simp_all

lemma getText_middle:
  "getText (pre @ mid @ post) (length pre + a, length pre + b) = getText (mid @ post) (a, b)"
  by (simp add: getText_def)

text \<open>
  C5. For the call \<^verbatim>\<open>useState<number | undefined>(undefined)\<close>, wherever it stands in
  a file, the rule reports exactly one diagnostic, \<open>redundantUndefinedUnion\<close>, whose fix
  replaces the type argument by the text of the remaining union member, \<open>number\<close>, and
  the argument list by \<open>()\<close>; applied to the file, the fix turns the call into
  \<^verbatim>\<open>useState<number>()\<close> and leaves the text around it as it was.
\<close>

theorem useState_undefined_union_fix:
  assumes "\<forall>t \<in> set toks_before. fst t < length pre"
      and "sc = \<lparr>src_text = pre @ useState_text @ post,
                 src_tokens = toks_before @ useState_tokens n @ toks_after,
                 src_body = body, src_declaredVariables = vars\<rparr>"
      and "n = length pre"
  shows "useState_CallExpression sc (useState_call n) =
           Inr [\<lparr>d_node = (n, n + 39), messageId = ''redundantUndefinedUnion'',
                 d_data = [(''baseType'', ''number'')],
                 d_fix = Some [Fix (n + 9, n + 27) ''number'', Fix (n + 28, n + 39) ''()'']\<rparr>]
         \<and> apply_fix (src_text sc) [Fix (n + 9, n + 27) ''number'', Fix (n + 28, n + 39) ''()'']
             = Some (pre @ ''useState<number>()'' @ post)"
proof (intro conjI)
  have src: "src_text sc = pre @ useState_text @ post"
    by (simp add: assms(2))
  have typeText: "getText (src_text sc) (n + 9, n + 27) = ''number | undefined''"
    unfolding src assms(3) getText_middle by (simp add: getText_def useState_text_def)
  have baseText: "getText (src_text sc) (n + 9, n + 15) = ''number''"
    unfolding src assms(3) getText_middle by (simp add: getText_def useState_text_def)
  have before: "\<forall>t \<in> set toks_before. \<not> n + k \<le> fst t" for k
    using assms(1,3) by auto
  have openParen: "getTokenAfter sc (n + 8, n + 28) = Some (n + 28, n + 29)"
    using before [of 28]
    by (simp add: getTokenAfter_def assms(2) find_append_none useState_tokens_def)
  have closeParen: "getTokenAfter sc (n + 29, n + 38) = Some (n + 38, n + 39)"
    using before [of 38]
    by (simp add: getTokenAfter_def assms(2) find_append_none useState_tokens_def)
  show "useState_CallExpression sc (useState_call n) =
           Inr [\<lparr>d_node = (n, n + 39), messageId = ''redundantUndefinedUnion'',
                 d_data = [(''baseType'', ''number'')],
                 d_fix = Some [Fix (n + 9, n + 27) ''number'', Fix (n + 28, n + 39) ''()'']\<rparr>]"
    by (simp add: useState_CallExpression_def useState_call_def typeText baseText
          isRedundant_def is_literal_def is_undefined_identifier_def literal_value_def
          useState_unions_def union_case_def union_types_def union_fix_def
          is_TSUndefinedKeyword_def is_null_literal_def useState_case4_def then_report_def
          openParen closeParen replaceText_def replaceTextRange_def Let_def)
next
  let ?fixes = "[Fix (length pre + 9, length pre + 27) ''number'',
                 Fix (length pre + 28, length pre + 39) ''()'']"
  have src: "src_text sc = pre @ useState_text @ post"
    by (simp add: assms(2))
  have valid: "valid_fix (pre @ useState_text @ post) ?fixes"
    by (simp add: valid_fix_def in_bounds_def overlap_def useState_text_def)
  have sorted: "sort_fixes ?fixes = ?fixes"
    by (simp add: fix_le_def)
  have applied: "apply_from 0 (pre @ useState_text @ post) ?fixes
                   = pre @ ''useState<number>()'' @ post"
    by (simp add: useState_text_def)
  show "apply_fix (src_text sc) [Fix (n + 9, n + 27) ''number'', Fix (n + 28, n + 39) ''()'']
             = Some (pre @ ''useState<number>()'' @ post)"
    unfolding assms(3) src
    by (simp only: apply_fix_def valid sorted applied if_True)
qed

theorem useState_undefined_union_witness:
  "useState_CallExpression
     \<lparr>src_text = ''const [n, setN] = useState<number | undefined>(undefined);'',
      src_tokens = [(0, 5), (6, 7), (7, 8), (8, 9), (10, 14), (14, 15), (16, 17)]
                   @ useState_tokens 18 @ [(57, 58)],
      src_body = [(''VariableDeclaration'', (0, 58))],
      src_declaredVariables = (\<lambda>_. [])\<rparr>
     (useState_call 18) =
   Inr [\<lparr>d_node = (18, 57), messageId = ''redundantUndefinedUnion'',
         d_data = [(''baseType'', ''number'')],
         d_fix = Some [Fix (27, 45) ''number'', Fix (46, 57) ''()'']\<rparr>]
   \<and> apply_fix ''const [n, setN] = useState<number | undefined>(undefined);''
         [Fix (27, 45) ''number'', Fix (46, 57) ''()'']
       = Some ''const [n, setN] = useState<number>();''"
proof -
  have 1: "\<forall>t \<in> set [(0, 5), (6, 7), (7, 8), (8, 9), (10, 14), (14, 15), (16::nat, 17::nat)].
             fst t < length ''const [n, setN] = ''"
    by simp
  have 2: "(18::nat) = length ''const [n, setN] = ''"
    by simp
  show ?thesis
    using useState_undefined_union_fix [OF 1 refl 2,
        where post = "'';''" and toks_after = "[(57, 58)]"
          and body = "[(''VariableDeclaration'', (0, 58))]" and vars = "\<lambda>_. []"]
    by (simp add: useState_text_def)
qed

section \<open>lucide-icon-suffix\<close>

lemma reference_fixes_eq:
  "reference_fixes local suggested refs =
     [Fix (id_range ref) suggested. ref \<leftarrow> refs, id_addr ref \<noteq> id_addr local]"
  by (induction refs) (simp_all add: replaceText_def replaceTextRange_def)

lemma variable_fixes_eq:
  "variable_fixes local suggested vs =
     [Fix (id_range ref) suggested.
        v \<leftarrow> vs, var_name v = id_name local,
        ref \<leftarrow> var_references v, id_addr ref \<noteq> id_addr local]"
  by (induction vs) (simp_all add: reference_fixes_eq)

lemma lucide_specifiers_Inr:
  assumes "lucide_specifiers sc node specs = Inr ds" and "d \<in> set ds"
  shows "\<exists>spec ds'. spec \<in> set specs \<and> lucide_specifier sc node spec = Inr ds' \<and> d \<in> set ds'"
  using assms
proof (induction specs arbitrary: ds)
  case Nil
  then show ?case by simp
next
  case (Cons spec specs)
  from Cons.prems(1) obtain d1 d2 where
    h: "lucide_specifier sc node spec = Inr d1" and
    t: "lucide_specifiers sc node specs = Inr d2" and ds: "ds = d1 @ d2"
    by (auto dest: then_report_Inr)
  from Cons.prems(2) ds consider "d \<in> set d1" | "d \<in> set d2" by auto
  then show ?case
  proof cases
    case 1
    with h show ?thesis by auto
  next
    case 2
    from Cons.IH [OF t 2] show ?thesis by auto
  qed
qed

lemma lucide_specifiers_identifiers:
  assumes "\<forall>r ir v l. ImportSpecifierLiteral r ir v l \<notin> set specs"
  shows "lucide_specifiers sc node specs =
           Inr (concat (map (\<lambda>spec. case lucide_specifier sc node spec of
                                      Inr ds \<Rightarrow> ds | Inl _ \<Rightarrow> []) specs))"
  using assms
proof (induction specs)
  case Nil
  then show ?case by simp
next
  case (Cons spec specs)
  then have t: "lucide_specifiers sc node specs =
           Inr (concat (map (\<lambda>spec. case lucide_specifier sc node spec of
                                      Inr ds \<Rightarrow> ds | Inl _ \<Rightarrow> []) specs))"
    by simp
  from Cons.prems have "\<forall>r ir v l. spec \<noteq> ImportSpecifierLiteral r ir v l"
    by (metis list.set_intros(1))
  then obtain ds where "lucide_specifier sc node spec = Inr ds"
    by (cases spec) (simp_all add: lucide_specifier_def)
  with t show ?case
    by (simp add: then_report_def)
qed

lemma lucide_specifiers_throw:
  "ImportSpecifierLiteral r ir v l \<in> set specs \<Longrightarrow> lucide_specifiers sc node specs = Inl TypeError"
proof (induction specs)
  case Nil
  then show ?case by simp
next
  case (Cons spec specs)
  show ?case
  proof (cases "spec = ImportSpecifierLiteral r ir v l")
    case True
    then show ?thesis by (simp add: lucide_specifier_def then_report_def)
  next
    case False
    with Cons have "lucide_specifiers sc node specs = Inl TypeError" by simp
    then show ?thesis
      by (simp add: then_report_def split: sum.splits) (metis error.exhaust)
  qed
qed

text \<open>
  For an import declaration from \<open>lucide-react\<close> whose import specifiers all name what
  they import by an identifier, the rule reports, in order, one \<open>missingIconSuffix\<close>
  diagnostic for every import specifier whose imported name does not end in \<open>Icon\<close>,
  anchored at the specifier. Its fix replaces the imported identifier by the name with
  \<open>Icon\<close> appended and, exactly when the local name equals the imported name, also every
  reference of the declared variables of that name whose identifier is not the
  specifier's own local node; for an aliased import the fix is the one replacement of
  the imported identifier.
\<close>

lemma lucide_identifier_imports_reported:
  assumes "imp_source_value node = ''lucide-react''"
      and "\<forall>r ir v l. ImportSpecifierLiteral r ir v l \<notin> set (imp_specifiers node)"
  shows "lucide_ImportDeclaration sc node =
           Inr [\<lparr>d_node = r,
                 messageId = ''missingIconSuffix'',
                 d_data = [(''imported'', id_name imported),
                           (''suggested'', id_name imported @ ''Icon'')],
                 d_fix = Some
                   (Fix (id_range imported) (id_name imported @ ''Icon'')
                    # (if id_name imported = id_name local
                       then [Fix (id_range ref) (id_name imported @ ''Icon'').
                               v \<leftarrow> src_declaredVariables sc node, var_name v = id_name local,
                               ref \<leftarrow> var_references v, id_addr ref \<noteq> id_addr local]
                       else []))\<rparr>.
                ImportSpecifier r imported local \<leftarrow> imp_specifiers node,
                \<not> endsWith (id_name imported) ''Icon'']"
proof -
  have "(case lucide_specifier sc node spec of Inr ds \<Rightarrow> ds | Inl _ \<Rightarrow> []) =
          (\<lambda>spec. case spec of
             ImportSpecifier r imported local \<Rightarrow>
               (if \<not> endsWith (id_name imported) ''Icon'' then
                  [\<lparr>d_node = r,
                    messageId = ''missingIconSuffix'',
                    d_data = [(''imported'', id_name imported),
                              (''suggested'', id_name imported @ ''Icon'')],
                    d_fix = Some
                      (Fix (id_range imported) (id_name imported @ ''Icon'')
                       # (if id_name imported = id_name local
                          then [Fix (id_range ref) (id_name imported @ ''Icon'').
                                  v \<leftarrow> src_declaredVariables sc node, var_name v = id_name local,
                                  ref \<leftarrow> var_references v, id_addr ref \<noteq> id_addr local]
                          else []))\<rparr>]
                else [])
           | _ \<Rightarrow> []) spec" for spec
    by (cases spec)
       (simp_all add: lucide_specifier_def lucide_fix_def variable_fixes_eq replaceText_def
          replaceTextRange_def Let_def cong del: if_weak_cong)
  then have "(\<lambda>spec. case lucide_specifier sc node spec of Inr ds \<Rightarrow> ds | Inl _ \<Rightarrow> []) =
          (\<lambda>spec. case spec of
             ImportSpecifier r imported local \<Rightarrow>
               (if \<not> endsWith (id_name imported) ''Icon'' then
                  [\<lparr>d_node = r,
                    messageId = ''missingIconSuffix'',
                    d_data = [(''imported'', id_name imported),
                              (''suggested'', id_name imported @ ''Icon'')],
                    d_fix = Some
                      (Fix (id_range imported) (id_name imported @ ''Icon'')
                       # (if id_name imported = id_name local
                          then [Fix (id_range ref) (id_name imported @ ''Icon'').
                                  v \<leftarrow> src_declaredVariables sc node, var_name v = id_name local,
                                  ref \<leftarrow> var_references v, id_addr ref \<noteq> id_addr local]
                          else []))\<rparr>]
                else [])
           | _ \<Rightarrow> [])"
    by (rule ext)
  then show ?thesis
    using assms
    by (simp add: lucide_ImportDeclaration_def lucide_specifiers_identifiers)
qed

text \<open>
  C6 fails on the code at \<^verbatim>\<open>import { Home, "a-b" as X } from "lucide-react";\<close>. The rule
  reads the name of the second specifier's literal as \<open>undefined\<close> and throws on
  \<open>importedName.endsWith("Icon")\<close>; the run on the file ends there, and \<open>Home\<close>, whose
  name does not end in \<open>Icon\<close>, is not reported.
\<close>

theorem lucide_string_import_throws:
  "lucide_string_import =
     \<lparr>imp_range = (0, 48), imp_source_range = (33, 47), imp_source_value = ''lucide-react'',
      imp_specifiers =
        [ImportSpecifier (9, 13) (Ident 1 (9, 13) ''Home'') (Ident 2 (9, 13) ''Home''),
         ImportSpecifierLiteral (15, 25) (15, 20) ''a-b'' (Ident 3 (24, 25) ''X'')]\<rparr>
   \<and> lucide_ImportDeclaration lucide_string_source lucide_string_import = Inl TypeError
   \<and> run_rule LucideIconSuffix ''/repo/src/app/page.tsx'' lucide_string_source
         [VisitImportDeclaration lucide_string_import] = Inl TypeError"
  by (simp add: lucide_string_import_def run_rule_def lucide_icon_suffix_def lucide_visit_def
        lucide_ImportDeclaration_def lucide_specifier_def then_report_def)

section \<open>nextjs-page-pattern\<close>

lemma split_on_nonempty: "split_on c s \<noteq> []"
  by (induction s) (auto split: list.splits)

lemma split_on_append:
  "split_on c (xs @ c # ys) = split_on c xs @ split_on c ys"
proof (induction xs)
  case Nil
  then show ?case by simp
next
  case (Cons x xs)
  obtain w ws where "split_on c xs = w # ws"
    using split_on_nonempty [of c xs] by (cases "split_on c xs") auto
  with Cons show ?case by simp
qed

lemma blog_posts_name: "generatePageName (dir @ ''/blog-posts/page.tsx'') = ''BlogPostsPage''"
proof -
  have "split_on CHR ''/'' (dir @ ''/blog-posts/page.tsx'')
          = split_on CHR ''/'' dir @ [''blog-posts'', ''page.tsx'']"
    using split_on_append [of "CHR ''/''" dir "''blog-posts/page.tsx''"] by simp
  then show ?thesis
    by (simp add: generatePageName_def Let_def nth_append startsWith_def pascal_page_def
          capitalize_def toUpperCase_def lower_case_def upper_case_def)
qed

lemma page_visit_flag:
  "hasNextPageImport (fst (page_visit filename sc acc v))
     = (hasNextPageImport (fst acc) \<or> imports_NextPage v)"
proof (cases v)
  case (VisitImportDeclaration node)
  have "list_ex (\<lambda>spec. case spec of ImportSpecifier _ imported _ \<Rightarrow> id_name imported = ''NextPage''
                                     | _ \<Rightarrow> False) specs
          = (''NextPage'' \<in> set (importedNames specs))" for specs
    by (induction specs) (auto simp: importedNames_def split: import_specifier.splits)
  with VisitImportDeclaration show ?thesis
    by (auto simp: page_visit_def page_ImportDeclaration_def imports_NextPage_def Let_def)
next
  case (VisitExportDefaultDeclaration node)
  then show ?thesis
    by (simp add: page_visit_def page_ExportDefaultDeclaration_def imports_NextPage_def Let_def
          split: default_declaration.splits)
next
  case (VisitExportNamedDeclaration node)
  then show ?thesis
    by (simp add: page_visit_def page_ExportNamedDeclaration_def imports_NextPage_def Let_def
          split: option.splits named_declaration.splits list.splits binding.splits)
qed (simp_all add: page_visit_def imports_NextPage_def Let_def)

lemma page_fold_flag:
  "hasNextPageImport (fst (foldl (page_visit filename sc) acc visits))
     = (hasNextPageImport (fst acc) \<or> list_ex imports_NextPage visits)"
  by (induction visits arbitrary: acc) (auto simp: page_visit_flag)

text \<open>
  C3. In a file whose path ends in \<open>/blog-posts/page.tsx\<close>, an export-default function
  declaration named \<open>Home\<close> produces one \<open>noExportDefaultFunction\<close> diagnostic anchored
  at the declaration. Its fix replaces the whole declaration by a constant named
  \<open>BlogPostsPage\<close>, annotated \<open>NextPage\<close> (with the type of the first parameter as type
  argument if it has one), initialised with an arrow function that keeps the text of the
  parameters and of the body and is \<open>async\<close> exactly when the function was, followed by
  a separate \<open>export default BlogPostsPage;\<close>. Unless an import of \<open>NextPage\<close> from
  \<open>next\<close> was visited before the declaration, the fix also inserts the type import,
  before the first import declaration or at the start of the file.
\<close>

theorem export_default_function_fix:
  assumes "node = \<lparr>ed_range = nr,
                   ed_declaration = DefaultFunction
                     \<lparr>fd_id = Some ''Home'', fd_params = ps, fd_body = br,
                      fd_async = isAsync\<rparr>\<rparr>"
  shows "nextjs_page_pattern (dir @ ''/blog-posts/page.tsx'') sc
           (before @ [VisitExportDefaultDeclaration node]) =
         nextjs_page_pattern (dir @ ''/blog-posts/page.tsx'') sc before @
         [\<lparr>d_node = nr,
           messageId = ''noExportDefaultFunction'',
           d_data = [],
           d_fix = Some
             ((if list_ex imports_NextPage before then []
               else [case find (\<lambda>b. fst b = ''ImportDeclaration'') (src_body sc) of
                       Some firstImport \<Rightarrow>
                         Fix (fst (snd firstImport), fst (snd firstImport))
                           (nextPage_import @ newline)
                     | None \<Rightarrow> Fix (0, 0) (nextPage_import @ newline @ newline)])
              @ [Fix nr
                   (''const BlogPostsPage: NextPage''
                    @ (if props_type_of sc ps = [] then []
                       else ''<'' @ props_type_of sc ps @ ''>'')
                    @ '' = ''
                    @ (if isAsync then ''async '' else [])
                    @ ''('' @ join '', '' (map (\<lambda>p. getText (src_text sc) (param_range p)) ps)
                    @ '') => '' @ getText (src_text sc) br @ '';'' @ newline @ newline
                    @ ''export default BlogPostsPage;'')])\<rparr>]"
proof -
  let ?file = "dir @ ''/blog-posts/page.tsx''"
  let ?acc = "foldl (page_visit ?file sc) (page_init, []) before"
  have "endsWith ''/blog-posts/page.tsx'' ''/page.tsx''"
    by (simp add: endsWith_def)
  then have page: "endsWith ?file ''/page.tsx''"
    by (rule endsWith_append)
  have flag: "hasNextPageImport (fst ?acc) = list_ex imports_NextPage before"
    by (simp add: page_fold_flag page_init_def)
  have home: "\<not> endsWith ''Home'' ''Page''"
    by (simp add: endsWith_def)
  have "snd (page_visit ?file sc ?acc (VisitExportDefaultDeclaration node)) =
          snd ?acc @
          [\<lparr>d_node = nr,
            messageId = ''noExportDefaultFunction'',
            d_data = [],
            d_fix = Some
              ((if list_ex imports_NextPage before then [] else [add_NextPage_import sc])
               @ [Fix nr (new_component sc ''BlogPostsPage''
                           \<lparr>fd_id = Some ''Home'', fd_params = ps, fd_body = br,
                            fd_async = isAsync\<rparr>)])\<rparr>]"
    using home
    by (simp add: page_visit_def page_ExportDefaultDeclaration_def Let_def assms flag
          blog_posts_name replaceText_def replaceTextRange_def)
  moreover have "add_NextPage_import sc =
          (case find (\<lambda>b. fst b = ''ImportDeclaration'') (src_body sc) of
             Some firstImport \<Rightarrow>
               Fix (fst (snd firstImport), fst (snd firstImport)) (nextPage_import @ newline)
           | None \<Rightarrow> Fix (0, 0) (nextPage_import @ newline @ newline))"
    by (simp add: add_NextPage_import_def insertTextBefore_def insertTextBeforeRange_def
          split: option.splits)
  moreover have "new_component sc ''BlogPostsPage''
                   \<lparr>fd_id = Some ''Home'', fd_params = ps, fd_body = br, fd_async = isAsync\<rparr> =
          ''const BlogPostsPage: NextPage''
          @ (if props_type_of sc ps = [] then [] else ''<'' @ props_type_of sc ps @ ''>'')
          @ '' = ''
          @ (if isAsync then ''async '' else [])
          @ ''('' @ join '', '' (map (\<lambda>p. getText (src_text sc) (param_range p)) ps)
          @ '') => '' @ getText (src_text sc) br @ '';'' @ newline @ newline
          @ ''export default BlogPostsPage;''"
    by (simp add: new_component_def params_text_def Let_def)
  ultimately show ?thesis
    using page by (simp add: nextjs_page_pattern_def)
qed

theorem export_default_function_witness:
  \<open>nextjs_page_pattern ''/repo/src/app/blog-posts/page.tsx'' home_page_source home_page_visits =
     [\<lparr>d_node = (0, 47),
       messageId = ''noExportDefaultFunction'',
       d_data = [],
       d_fix = Some
         [Fix (0, 0) (''import type { NextPage } from "next";'' @ newline @ newline),
          Fix (0, 47) (''const BlogPostsPage: NextPage = () => { return <x/>; };''
                       @ newline @ newline @ ''export default BlogPostsPage;'')]\<rparr>]
   \<and> apply_fix (src_text home_page_source)
         [Fix (0, 0) (''import type { NextPage } from "next";'' @ newline @ newline),
          Fix (0, 47) (''const BlogPostsPage: NextPage = () => { return <x/>; };''
                       @ newline @ newline @ ''export default BlogPostsPage;'')]
       = Some (''import type { NextPage } from "next";'' @ newline @ newline
               @ ''const BlogPostsPage: NextPage = () => { return <x/>; };''
               @ newline @ newline @ ''export default BlogPostsPage;'')\<close>
proof (intro conjI)
  have empty: "nextjs_page_pattern ''/repo/src/app/blog-posts/page.tsx'' sc [] = []" for sc
    by (simp add: nextjs_page_pattern_def)
  show \<open>nextjs_page_pattern ''/repo/src/app/blog-posts/page.tsx'' home_page_source home_page_visits =
     [\<lparr>d_node = (0, 47),
       messageId = ''noExportDefaultFunction'',
       d_data = [],
       d_fix = Some
         [Fix (0, 0) (''import type { NextPage } from "next";'' @ newline @ newline),
          Fix (0, 47) (''const BlogPostsPage: NextPage = () => { return <x/>; };''
                       @ newline @ newline @ ''export default BlogPostsPage;'')]\<rparr>]\<close>
    using export_default_function_fix [OF refl,
        where dir = "''/repo/src/app''" and sc = home_page_source and before = "[]"
          and nr = "(0, 47)" and ps = "[]" and br = "(31, 47)" and isAsync = False]
    by (simp add: empty home_page_visits_def home_page_source_def props_type_of_def
          getText_def nextPage_import_def)
next
  show \<open>apply_fix (src_text home_page_source)
         [Fix (0, 0) (''import type { NextPage } from "next";'' @ newline @ newline),
          Fix (0, 47) (''const BlogPostsPage: NextPage = () => { return <x/>; };''
                       @ newline @ newline @ ''export default BlogPostsPage;'')]
       = Some (''import type { NextPage } from "next";'' @ newline @ newline
               @ ''const BlogPostsPage: NextPage = () => { return <x/>; };''
               @ newline @ newline @ ''export default BlogPostsPage;'')\<close>
    by (simp add: apply_fix_def valid_fix_def in_bounds_def overlap_def fix_le_def
          home_page_source_def)
qed

section \<open>Applying a fix\<close>

lemma overlap_sym: "overlap a b = overlap b a"
  by (auto simp: overlap_def)

lemma non_overlapping_sorted_wrt:
  "non_overlapping rs = sorted_wrt (\<lambda>r q. \<not> overlap r q) rs"
  by (induction rs) (auto simp: list_all_iff)

lemma set_insert_fix: "set (insert_fix f gs) = insert f (set gs)"
  by (induction gs) auto

lemma set_sort_fixes: "set (sort_fixes fs) = set fs"
  by (induction fs) (simp_all add: set_insert_fix)

lemma sorted_insert_fix:
  "sorted_wrt fix_le gs \<Longrightarrow> sorted_wrt fix_le (insert_fix f gs)"
proof (induction gs)
  case Nil
  then show ?case by simp
next
  case (Cons g gs)
  have total: "\<not> fix_le f g \<Longrightarrow> fix_le g f"
    by (auto simp: fix_le_def)
  have trans: "fix_le a b \<Longrightarrow> fix_le b c \<Longrightarrow> fix_le a c" for a b c
    by (auto simp: fix_le_def)
  show ?case
  proof (cases "fix_le f g")
    case True
    with Cons.prems trans show ?thesis by auto
  next
    case False
    with Cons total show ?thesis
      by (auto simp: set_insert_fix)
  qed
qed

lemma sorted_sort_fixes: "sorted_wrt fix_le (sort_fixes fs)"
  by (induction fs) (simp_all add: sorted_insert_fix)

lemma non_overlapping_insert_fix:
  "non_overlapping (map fix_range (insert_fix f gs)) =
     ((\<forall>g \<in> set gs. \<not> overlap (fix_range f) (fix_range g)) \<and> non_overlapping (map fix_range gs))"
  by (induction gs) (auto simp: list_all_iff set_insert_fix overlap_sym)

lemma non_overlapping_sort_fixes:
  "non_overlapping (map fix_range (sort_fixes fs)) = non_overlapping (map fix_range fs)"
  by (induction fs) (auto simp: non_overlapping_insert_fix set_sort_fixes list_all_iff)

text \<open>In a valid fix, ordered, every edit ends where the next one starts or before.\<close>

lemma sorted_fixes_chain:
  assumes "valid_fix src fs"
  shows "sorted_wrt (\<lambda>a b. snd (fix_range a) \<le> fst (fix_range b)) (sort_fixes fs)"
proof -
  have bounds: "\<forall>f \<in> set (sort_fixes fs). fst (fix_range f) \<le> snd (fix_range f)"
    using assms by (auto simp: valid_fix_def list_all_iff in_bounds_def set_sort_fixes)
  have "sorted_wrt (\<lambda>a b. \<not> overlap (fix_range a) (fix_range b)) (sort_fixes fs)"
    using assms non_overlapping_sort_fixes [of fs]
    by (simp add: valid_fix_def non_overlapping_sorted_wrt sorted_wrt_map)
  then have "sorted_wrt (\<lambda>a b. fix_le a b \<and> \<not> overlap (fix_range a) (fix_range b)) (sort_fixes fs)"
    using sorted_sort_fixes [of fs] by (simp add: sorted_wrt_iff_nth_less)
  then show ?thesis
  proof (rule sorted_wrt_mono_rel [rotated])
    fix a b
    assume "a \<in> set (sort_fixes fs)" "b \<in> set (sort_fixes fs)"
       and "fix_le a b \<and> \<not> overlap (fix_range a) (fix_range b)"
    with bounds show "snd (fix_range a) \<le> fst (fix_range b)"
      by (auto simp: fix_le_def overlap_def)
  qed
qed

lemma apply_from_preserves:
  assumes "sorted_wrt (\<lambda>a b. snd (fix_range a) \<le> fst (fix_range b)) fs"
      and "\<forall>f \<in> set fs. pos \<le> fst (fix_range f) \<and> fst (fix_range f) \<le> snd (fix_range f)
                          \<and> snd (fix_range f) \<le> length src"
      and "pos \<le> i" and "i < length src"
      and "\<forall>f \<in> set fs. \<not> (fst (fix_range f) \<le> i \<and> i < snd (fix_range f))"
  shows "offset_from pos fs i < length (apply_from pos src fs)
         \<and> apply_from pos src fs ! offset_from pos fs i = src ! i"
  using assms
proof (induction fs arbitrary: pos)
  case Nil
  then show ?case by simp
next
  case (Cons f fs)
  obtain s e where r: "fix_range f = (s, e)" by (cases "fix_range f")
  from Cons.prems(2) r have b: "pos \<le> s" "s \<le> e" "e \<le> length src" by auto
  have len: "length (take (s - pos) (drop pos src)) = s - pos"
    using b by simp
  show ?case
  proof (cases "i < s")
    case True
    with Cons.prems(3) b len show ?thesis
      by (auto simp: r nth_append)
  next
    case False
    with Cons.prems(5) r have "e \<le> i" by auto
    moreover have "sorted_wrt (\<lambda>a b. snd (fix_range a) \<le> fst (fix_range b)) fs"
      using Cons.prems(1) by simp
    moreover have "\<forall>g \<in> set fs. e \<le> fst (fix_range g) \<and> fst (fix_range g) \<le> snd (fix_range g)
                          \<and> snd (fix_range g) \<le> length src"
      using Cons.prems(1,2) r by auto
    moreover have "\<forall>g \<in> set fs. \<not> (fst (fix_range g) \<le> i \<and> i < snd (fix_range g))"
      using Cons.prems(5) by simp
    ultimately have IH: "offset_from e fs i < length (apply_from e src fs)
         \<and> apply_from e src fs ! offset_from e fs i = src ! i"
      using Cons.IH [of e] Cons.prems(4) by blast
    with False len show ?thesis
      by (simp add: r nth_append)
  qed
qed

lemma apply_fix_preserves:
  assumes "valid_fix src fixes" and "i < length src" and "\<not> edited fixes i"
  shows "\<exists>out. apply_fix src fixes = Some out
           \<and> new_offset fixes i < length out \<and> out ! new_offset fixes i = src ! i"
proof -
  have "\<forall>f \<in> set (sort_fixes fixes). 0 \<le> fst (fix_range f)
          \<and> fst (fix_range f) \<le> snd (fix_range f) \<and> snd (fix_range f) \<le> length src"
    using assms(1) by (auto simp: valid_fix_def list_all_iff in_bounds_def set_sort_fixes)
  moreover have "\<forall>f \<in> set (sort_fixes fixes). \<not> (fst (fix_range f) \<le> i \<and> i < snd (fix_range f))"
    using assms(3) by (auto simp: edited_def list_ex_iff set_sort_fixes)
  ultimately have "offset_from 0 (sort_fixes fixes) i < length (apply_from 0 src (sort_fixes fixes))
         \<and> apply_from 0 src (sort_fixes fixes) ! offset_from 0 (sort_fixes fixes) i = src ! i"
    using apply_from_preserves [OF sorted_fixes_chain [OF assms(1)], where pos = 0 and i = i]
      assms(2) by blast
  then show ?thesis
    using assms(1) by (simp add: apply_fix_def new_offset_def)
qed

section \<open>Validity of the fixes, rule by rule\<close>

lemma valid_fix_single: "in_bounds src r \<Longrightarrow> valid_fix src [Fix r t]"
  by (simp add: valid_fix_def)

lemma concat_map_member:
  "d \<in> set (concat (map f xs)) \<longleftrightarrow> (\<exists>x \<in> set xs. d \<in> set (f x))"
  by auto

subsection \<open>Rules without fixes\<close>

lemma insert_rule_no_fix:
  "d \<in> set (supabase_no_insert_with_id visits) \<Longrightarrow> d_fix d = None"
proof -
  have call: "\<forall>d \<in> set (insert_CallExpression node). d_fix d = None" for node
    using insert_elements_no_fix
    by (auto simp: insert_CallExpression_def report_noInsertWithId_def Let_def
        split: expr.splits if_splits)
  have "\<forall>d \<in> set (insert_visit v). d_fix d = None" for v
    using call by (cases v) (simp_all add: insert_visit_def)
  then show "d \<in> set (supabase_no_insert_with_id visits) \<Longrightarrow> d_fix d = None"
    by (auto simp: supabase_no_insert_with_id_def)
qed

lemma redirect_report_no_fix: "d_fix (redirect_report node mid sourcePath destination) = None"
  by (simp add: redirect_report_def)

lemma redirect_exit_no_fix:
  "list_all (\<lambda>d. d_fix d = None) (redirect_Program_exit filename st)"
  by (simp add: redirect_Program_exit_def redirect_report_no_fix split: option.split)

lemma redirect_rule_no_fix:
  "d \<in> set (next_no_redirect_only_pages filename visits) \<Longrightarrow> d_fix d = None"
proof (cases "endsWith filename ''/page.tsx''")
  case True
  assume "d \<in> set (next_no_redirect_only_pages filename visits)"
  with True have "d \<in> set (redirect_Program_exit filename (foldl redirect_visit redirect_init visits))"
    by (simp only: next_no_redirect_only_pages_def not_True_eq_False if_False)
  with redirect_exit_no_fix [of filename "foldl redirect_visit redirect_init visits"]
  show ?thesis
    unfolding list_all_iff by blast
next
  case False
  assume "d \<in> set (next_no_redirect_only_pages filename visits)"
  with False show ?thesis
    by (simp only: next_no_redirect_only_pages_def not_False_eq_True if_True list.set empty_iff)
qed

subsection \<open>supabase-no-direct-imports\<close>

lemma supabase_import_fix_valid:
  assumes "wf_import sc node"
      and "d \<in> set (supabase_ImportDeclaration filename node)"
      and "d_fix d = Some fixes"
  shows "valid_fix (src_text sc) fixes"
proof -
  have "in_bounds (src_text sc) (imp_source_range node)"
    using assms(1) by (simp add: wf_import_def Let_def)
  then show ?thesis
    using assms(2,3)
    by (auto simp: supabase_ImportDeclaration_def Let_def replaceText_def replaceTextRange_def
          valid_fix_single split: if_splits)
qed

subsection \<open>lucide-icon-suffix\<close>

lemma reference_fixes_ranges:
  "map fix_range (reference_fixes local suggested refs)
     = map id_range (filter (\<lambda>ref. id_addr ref \<noteq> id_addr local) refs)"
  by (induction refs) (simp_all add: replaceText_def replaceTextRange_def)

lemma reference_fixes_subset:
  "set (map fix_range (reference_fixes local suggested refs)) \<subseteq> set (map id_range refs)"
  unfolding reference_fixes_ranges by auto

lemma variable_fixes_subset:
  "set (map fix_range (variable_fixes local suggested vs))
     \<subseteq> set (map id_range (concat (map var_references vs)))"
proof (induction vs)
  case Nil
  then show ?case by simp
next
  case (Cons v vs)
  have "set (map fix_range (variable_fixes local suggested (v # vs)))
          \<subseteq> set (map fix_range (reference_fixes local suggested (var_references v)))
            \<union> set (map fix_range (variable_fixes local suggested vs))"
    by auto
  also have "\<dots> \<subseteq> set (map id_range (var_references v))
                   \<union> set (map id_range (concat (map var_references vs)))"
    using reference_fixes_subset [of local suggested "var_references v"] Cons.IH
    by blast
  finally show ?case by auto
qed

lemma variable_fixes_sorted:
  assumes "sorted_wrt R (map id_range (concat (map var_references vs)))"
  shows "sorted_wrt R (map fix_range (variable_fixes local suggested vs))"
  using assms
proof (induction vs)
  case Nil
  then show ?case by simp
next
  case (Cons v vs)
  from Cons.prems have
    head: "sorted_wrt R (map id_range (var_references v))" and
    tail: "sorted_wrt R (map id_range (concat (map var_references vs)))" and
    cross: "\<forall>x \<in> set (map id_range (var_references v)).
             \<forall>y \<in> set (map id_range (concat (map var_references vs))). R x y"
    by (auto simp: sorted_wrt_append)
  have h: "sorted_wrt R (map fix_range (reference_fixes local suggested (var_references v)))"
    unfolding reference_fixes_ranges
    using head by (simp add: sorted_wrt_map sorted_wrt_filter)
  have sub: "set (map fix_range (reference_fixes local suggested (var_references v)))
               \<subseteq> set (map id_range (var_references v))"
    by (auto simp: reference_fixes_ranges)
  show ?case
  proof (cases "var_name v = id_name local")
    case True
    have "\<forall>x \<in> set (map fix_range (reference_fixes local suggested (var_references v))).
            \<forall>y \<in> set (map fix_range (variable_fixes local suggested vs)). R x y"
      using cross sub variable_fixes_subset [of local suggested vs] by blast
    with True h Cons.IH [OF tail] show ?thesis
      by (simp add: sorted_wrt_append)
  next
    case False
    with Cons.IH [OF tail] show ?thesis by simp
  qed
qed

lemma lucide_fix_valid:
  assumes "wf_import sc node"
      and "ImportSpecifier r imported local \<in> set (imp_specifiers node)"
  shows "valid_fix (src_text sc) (lucide_fix sc node imported local)"
proof -
  let ?refs = "map id_range (concat (map var_references (src_declaredVariables sc node)))"
  let ?vf = "variable_fixes local (id_name imported @ ''Icon'') (src_declaredVariables sc node)"
  from assms have
    refs_in: "\<forall>q \<in> set ?refs. in_bounds (src_text sc) q" and
    refs_apart: "non_overlapping ?refs" and
    imp_in: "in_bounds (src_text sc) (id_range imported)" and
    imp_apart: "\<forall>q \<in> set ?refs. \<not> overlap (id_range imported) q"
    by (auto simp: wf_import_def Let_def list_all_iff split: import_specifier.splits)
  have sub: "set (map fix_range ?vf) \<subseteq> set ?refs"
    by (rule variable_fixes_subset)
  have apart: "non_overlapping (map fix_range ?vf)"
    using refs_apart variable_fixes_sorted unfolding non_overlapping_sorted_wrt by blast
  have "valid_fix (src_text sc) (Fix (id_range imported) (id_name imported @ ''Icon'') # ?vf)"
    using refs_in imp_in imp_apart sub apart
    by (auto simp: valid_fix_def list_all_iff)
  moreover have "valid_fix (src_text sc) [Fix (id_range imported) (id_name imported @ ''Icon'')]"
    using imp_in by (rule valid_fix_single)
  ultimately show ?thesis
    by (cases "id_name imported = id_name local")
       (simp_all add: lucide_fix_def Let_def replaceText_def replaceTextRange_def)
qed

lemma lucide_import_diagnostic:
  assumes "lucide_ImportDeclaration sc node = Inr ds" and "d \<in> set ds"
  shows "\<exists>r imported local.
           ImportSpecifier r imported local \<in> set (imp_specifiers node)
           \<and> \<not> endsWith (id_name imported) ''Icon''
           \<and> d = \<lparr>d_node = r, messageId = ''missingIconSuffix'',
                    d_data = [(''imported'', id_name imported),
                              (''suggested'', id_name imported @ ''Icon'')],
                    d_fix = Some (lucide_fix sc node imported local)\<rparr>"
proof -
  from assms have run: "lucide_specifiers sc node (imp_specifiers node) = Inr ds"
    by (cases "imp_source_value node = ''lucide-react''")
       (simp_all add: lucide_ImportDeclaration_def)
  from lucide_specifiers_Inr [OF run assms(2)] obtain spec ds' where
    spec: "spec \<in> set (imp_specifiers node)" and
    r: "lucide_specifier sc node spec = Inr ds'" and d: "d \<in> set ds'"
    by blast
  from r d obtain r0 imported local where s: "spec = ImportSpecifier r0 imported local"
    by (cases spec) (auto simp: lucide_specifier_def)
  with r d have "\<not> endsWith (id_name imported) ''Icon''"
      and "d = \<lparr>d_node = r0, messageId = ''missingIconSuffix'',
                  d_data = [(''imported'', id_name imported),
                            (''suggested'', id_name imported @ ''Icon'')],
                  d_fix = Some (lucide_fix sc node imported local)\<rparr>"
    by (auto simp: lucide_specifier_def split: if_splits)
  with spec s show ?thesis by blast
qed

lemma lucide_import_fix_valid:
  assumes "wf_import sc node"
      and "lucide_ImportDeclaration sc node = Inr ds" and "d \<in> set ds"
      and "d_fix d = Some fixes"
  shows "valid_fix (src_text sc) fixes"
proof -
  from lucide_import_diagnostic [OF assms(2,3)] assms(4) obtain r imported local where
    "ImportSpecifier r imported local \<in> set (imp_specifiers node)"
    "fixes = lucide_fix sc node imported local"
    by auto
  with lucide_fix_valid [OF assms(1)] show ?thesis by blast
qed

lemma lucide_visits_fix_valid:
  assumes "list_all (wf_visit sc all_visits) visits"
      and "lucide_visits sc visits = Inr ds"
      and "d \<in> set ds" and "d_fix d = Some fixes"
  shows "valid_fix (src_text sc) fixes"
  using assms(1,2,3)
proof (induction visits arbitrary: ds)
  case Nil
  then show ?case by simp
next
  case (Cons v vs)
  from Cons.prems(2) obtain d1 d2 where
    h: "lucide_visit sc v = Inr d1" and
    t: "lucide_visits sc vs = Inr d2" and ds: "ds = d1 @ d2"
    by (auto dest: then_report_Inr)
  from Cons.prems(3) ds consider "d \<in> set d1" | "d \<in> set d2" by auto
  then show ?case
  proof cases
    case 1
    with h obtain node where v: "v = VisitImportDeclaration node"
      and c: "lucide_ImportDeclaration sc node = Inr d1"
      by (cases v) (auto simp: lucide_visit_def)
    from Cons.prems(1) v have "wf_import sc node"
      by (simp add: wf_visit_def)
    from lucide_import_fix_valid [OF this c 1 assms(4)] show ?thesis .
  next
    case 2
    with Cons.IH [OF _ t] Cons.prems(1) show ?thesis by simp
  qed
qed

subsection \<open>react-no-redundant-usestate-types\<close>

lemma sorted_wrt_pair:
  "sorted_wrt R xs \<Longrightarrow> x \<in> set xs \<Longrightarrow> y \<in> set xs \<Longrightarrow> x = y \<or> R x y \<or> R y x"
  by (induction xs) auto

lemma sorted_wrt_find_first:
  "sorted_wrt R xs \<Longrightarrow> find P xs = Some x \<Longrightarrow> y \<in> set xs \<Longrightarrow> P y \<Longrightarrow> x = y \<or> R x y"
  by (induction xs) (auto split: if_splits)

lemma getTokenAfter_Some:
  "getTokenAfter sc r = Some t \<Longrightarrow> t \<in> set (src_tokens sc) \<and> snd r \<le> fst t"
  by (auto simp: getTokenAfter_def find_Some_iff)

lemma getTokenBefore_Some:
  assumes "getTokenBefore sc r = Some t"
  shows "t \<in> set (src_tokens sc) \<and> fst t < fst r"
proof -
  let ?ts = "filter (\<lambda>t. fst t < fst r) (src_tokens sc)"
  from assms have "?ts \<noteq> []" and "t = last ?ts"
    by (auto simp: getTokenBefore_def split: list.splits)
  then have "t \<in> set ?ts"
    using last_in_set by blast
  then show ?thesis by simp
qed

lemma token_in_bounds:
  "tokens_ok sc \<Longrightarrow> t \<in> set (src_tokens sc) \<Longrightarrow> fst t \<le> snd t \<and> snd t \<le> length (src_text sc)"
  by (auto simp: tokens_ok_def list_all_iff in_bounds_def)

lemma remove_type_arguments_fix_valid:
  assumes "tokens_ok sc"
      and "fst (targs_range typeArguments) \<le> snd (targs_range typeArguments)"
      and "remove_type_arguments_fix sc typeArguments = Inr fixes"
  shows "valid_fix (src_text sc) fixes"
proof -
  from assms(3) obtain tb ta where
    tb: "getTokenBefore sc (targs_range typeArguments) = Some tb" and
    ta: "getTokenAfter sc (targs_range typeArguments) = Some ta" and
    fx: "fixes = [Fix (snd tb, fst ta) []]"
    by (auto simp: remove_type_arguments_fix_def removeRange_def replaceTextRange_def
          split: option.splits)
  note b = getTokenBefore_Some [OF tb] and a = getTokenAfter_Some [OF ta]
  note bb = token_in_bounds [OF assms(1) conjunct1 [OF b]]
    and ab = token_in_bounds [OF assms(1) conjunct1 [OF a]]
  have "sorted_wrt (\<lambda>t u. snd t \<le> fst u) (src_tokens sc)"
    using assms(1) by (simp add: tokens_ok_def)
  from sorted_wrt_pair [OF this conjunct1 [OF b] conjunct1 [OF a]]
  have "snd tb \<le> fst ta"
    using a b ab bb assms(2) by auto
  then show ?thesis
    using ab by (simp add: fx valid_fix_def in_bounds_def)
qed

lemma union_fix_valid:
  assumes "tokens_ok sc"
      and "in_bounds (src_text sc) (ts_range typeParam)"
      and "snd (ts_range typeParam) \<le> snd (targs_range typeArguments)"
      and "snd (targs_range typeArguments) \<le> fst (expr_range argument)"
      and "fst (expr_range argument) \<le> snd (expr_range argument)"
      and "union_fix sc typeArguments typeParam args argument baseTypeText = Inr fixes"
  shows "valid_fix (src_text sc) fixes"
proof (cases "length args = 1")
  case False
  with assms(6) have "fixes = [Fix (ts_range typeParam) baseTypeText]"
    by (simp add: union_fix_def replaceText_def replaceTextRange_def)
  with assms(2) show ?thesis
    by (simp add: valid_fix_single)
next
  case True
  with assms(6) obtain op cl where
    op: "getTokenAfter sc (targs_range typeArguments) = Some op" and
    cl: "getTokenAfter sc (expr_range argument) = Some cl" and
    fx: "fixes = [Fix (ts_range typeParam) baseTypeText, Fix (fst op, snd cl) ''()'']"
    by (auto simp: union_fix_def replaceText_def replaceTextRange_def Let_def
          split: option.splits)
  note o = getTokenAfter_Some [OF op] and c = getTokenAfter_Some [OF cl]
  note ob = token_in_bounds [OF assms(1) conjunct1 [OF o]]
    and cb = token_in_bounds [OF assms(1) conjunct1 [OF c]]
  have srt: "sorted_wrt (\<lambda>t u. snd t \<le> fst u) (src_tokens sc)"
    using assms(1) by (simp add: tokens_ok_def)
  have "snd (targs_range typeArguments) \<le> fst cl"
    using c assms(4,5) by simp
  with sorted_wrt_find_first [OF srt op [unfolded getTokenAfter_def] conjunct1 [OF c]]
  have "op = cl \<or> snd op \<le> fst cl" by blast
  then have "fst op \<le> snd cl"
    using ob cb by auto
  then show ?thesis
    using assms(2,3) o cb
    by (auto simp: fx valid_fix_def in_bounds_def overlap_def)
qed

lemma union_case_valid:
  assumes "tokens_ok sc"
      and "in_bounds (src_text sc) (ts_range typeParam)"
      and "snd (ts_range typeParam) \<le> snd (targs_range typeArguments)"
      and "snd (targs_range typeArguments) \<le> fst (expr_range argument)"
      and "fst (expr_range argument) \<le> snd (expr_range argument)"
      and "union_case sc node_range typeArguments typeParam args argument is_kw mid = Inr ds"
      and "d \<in> set ds" and "d_fix d = Some fixes"
  shows "valid_fix (src_text sc) fixes"
proof -
  from assms(6,7,8) obtain baseTypeText where
    "union_fix sc typeArguments typeParam args argument baseTypeText = Inr fixes"
    by (auto simp: union_case_def Let_def split: option.splits if_splits sum.splits)
  with union_fix_valid [OF assms(1-5)] show ?thesis by blast
qed

lemma useState_case4_valid:
  assumes "tokens_ok sc"
      and "fst (targs_range typeArguments) \<le> snd (targs_range typeArguments)"
      and "useState_case4 sc typeArguments typeParam args = Inr ds"
      and "d \<in> set ds" and "d_fix d = Some fixes"
  shows "valid_fix (src_text sc) fixes"
proof -
  from assms(3,4,5) have "remove_type_arguments_fix sc typeArguments = Inr fixes"
    by (auto simp: useState_case4_def split: if_splits sum.splits)
  with remove_type_arguments_fix_valid [OF assms(1,2)] show ?thesis by blast
qed

lemma useState_unions_valid:
  assumes "tokens_ok sc"
      and "fst (targs_range typeArguments) \<le> snd (targs_range typeArguments)"
      and "in_bounds (src_text sc) (ts_range typeParam)"
      and "snd (ts_range typeParam) \<le> snd (targs_range typeArguments)"
      and "case args of
             [] \<Rightarrow> True
           | argument # _ \<Rightarrow>
               snd (targs_range typeArguments) \<le> fst (expr_range argument)
               \<and> fst (expr_range argument) \<le> snd (expr_range argument)"
      and "useState_unions sc node_range typeArguments typeParam args = Inr ds"
      and "d \<in> set ds" and "d_fix d = Some fixes"
  shows "valid_fix (src_text sc) fixes"
proof -
  from assms(6) obtain d2 d3 d4 where
    c2: "(case args of
            argument # _ \<Rightarrow>
              (if is_undefined_identifier argument
               then union_case sc node_range typeArguments typeParam args argument
                      is_TSUndefinedKeyword ''redundantUndefinedUnion''
               else Inr [])
          | [] \<Rightarrow> Inr []) = Inr d2" and
    c3: "(case args of
            argument # _ \<Rightarrow>
              (if is_literal argument \<and> is_null_literal argument
               then union_case sc node_range typeArguments typeParam args argument
                      is_TSNullKeyword ''preferUndefinedOverNull''
               else Inr [])
          | [] \<Rightarrow> Inr []) = Inr d3" and
    c4: "useState_case4 sc typeArguments typeParam args = Inr d4" and
    ds: "ds = d2 @ d3 @ d4"
    unfolding useState_unions_def
    by (blast dest: then_report_Inr)
  from assms(7) ds consider "d \<in> set d2" | "d \<in> set d3" | "d \<in> set d4" by auto
  then show ?thesis
  proof cases
    case 1
    then obtain argument rest where args: "args = argument # rest"
      and u: "union_case sc node_range typeArguments typeParam args argument
                is_TSUndefinedKeyword ''redundantUndefinedUnion'' = Inr d2"
      using c2 by (cases args) (auto split: if_splits)
    from assms(5) args have "snd (targs_range typeArguments) \<le> fst (expr_range argument)"
      "fst (expr_range argument) \<le> snd (expr_range argument)" by simp_all
    from union_case_valid [OF assms(1,3,4) this u 1 assms(8)]
    show ?thesis .
  next
    case 2
    then obtain argument rest where args: "args = argument # rest"
      and u: "union_case sc node_range typeArguments typeParam args argument
                is_TSNullKeyword ''preferUndefinedOverNull'' = Inr d3"
      using c3 by (cases args) (auto split: if_splits)
    from assms(5) args have "snd (targs_range typeArguments) \<le> fst (expr_range argument)"
      "fst (expr_range argument) \<le> snd (expr_range argument)" by simp_all
    from union_case_valid [OF assms(1,3,4) this u 2 assms(8)]
    show ?thesis .
  next
    case 3
    from useState_case4_valid [OF assms(1,2) c4 this assms(8)] show ?thesis .
  qed
qed

lemma useState_CallExpression_unfold:
  "useState_CallExpression sc
     (CallExpression node_range (Identifier ir ''useState'')
        (Some (TypeArgs tr (typeParam # params))) args) =
   (case args of
      argument # _ \<Rightarrow>
        (if isRedundant (getText (src_text sc) (ts_range typeParam)) typeParam argument then
           (case remove_type_arguments_fix sc (TypeArgs tr (typeParam # params)) of
              Inl e \<Rightarrow> Inl e
            | Inr fixes \<Rightarrow>
                Inr [\<lparr>d_node = tr, messageId = ''redundantSimpleType'',
                      d_data = [(''type'', getText (src_text sc) (ts_range typeParam))],
                      d_fix = Some fixes\<rparr>])
         else useState_unions sc node_range (TypeArgs tr (typeParam # params)) typeParam args)
    | [] \<Rightarrow> useState_unions sc node_range (TypeArgs tr (typeParam # params)) typeParam args)"
  by (cases args) (simp_all add: useState_CallExpression_def Let_def split: sum.split)

lemma useState_CallExpression_other:
  assumes "\<not> (\<exists>node_range ir tr typeParam params args.
              node = CallExpression node_range (Identifier ir ''useState'')
                       (Some (TypeArgs tr (typeParam # params))) args)"
  shows "useState_CallExpression sc node = Inr []"
proof (cases node)
  case (CallExpression node_range callee typeArgs args)
  show ?thesis
  proof (cases "\<exists>ir. callee = Identifier ir ''useState''")
    case False
    then show ?thesis
      unfolding CallExpression useState_CallExpression_def
      by (cases callee) simp_all
  next
    case True
    then obtain ir where callee: "callee = Identifier ir ''useState''" by blast
    show ?thesis
    proof (cases typeArgs)
      case None
      then show ?thesis
        by (simp add: CallExpression callee useState_CallExpression_def)
    next
      case (Some ta)
      obtain tr ps where ta: "ta = TypeArgs tr ps" by (cases ta)
      with assms CallExpression callee Some have "ps = []"
        by (cases ps) auto
      then show ?thesis
        by (simp add: CallExpression callee Some ta useState_CallExpression_def)
    qed
  qed
qed (simp_all add: useState_CallExpression_def)

lemma useState_call_fix_valid:
  assumes "tokens_ok sc" and "wf_call sc node"
      and "useState_CallExpression sc node = Inr ds"
      and "d \<in> set ds" and "d_fix d = Some fixes"
  shows "valid_fix (src_text sc) fixes"
proof (cases "\<exists>node_range ir tr typeParam params args.
              node = CallExpression node_range (Identifier ir ''useState'')
                       (Some (TypeArgs tr (typeParam # params))) args")
  case False
  from useState_CallExpression_other [OF this] assms(3,4) show ?thesis by simp
next
  case True
  then obtain node_range ir tr typeParam params args where
    node: "node = CallExpression node_range (Identifier ir ''useState'')
                    (Some (TypeArgs tr (typeParam # params))) args"
    by blast
  let ?ta = "TypeArgs tr (typeParam # params)"
  let ?typeText = "getText (src_text sc) (ts_range typeParam)"
  from assms(2) have wf1: "fst (targs_range ?ta) \<le> snd (targs_range ?ta)"
    and wf2: "in_bounds (src_text sc) (ts_range typeParam)"
    and wf3: "snd (ts_range typeParam) \<le> snd (targs_range ?ta)"
    by (simp_all add: wf_call_def node)
  have wf4: "case args of
               [] \<Rightarrow> True
             | argument # _ \<Rightarrow>
                 snd (targs_range ?ta) \<le> fst (expr_range argument)
                 \<and> fst (expr_range argument) \<le> snd (expr_range argument)"
    using assms(2) by (simp add: wf_call_def node)
  note run = assms(3) [unfolded node useState_CallExpression_unfold]
  show ?thesis
  proof (cases args)
    case Nil
    with run have "useState_unions sc node_range ?ta typeParam args = Inr ds"
      by simp
    from useState_unions_valid [OF assms(1) wf1 wf2 wf3 wf4 this assms(4,5)]
    show ?thesis .
  next
    case (Cons argument rest)
    show ?thesis
    proof (cases "isRedundant ?typeText typeParam argument")
      case True
      with run Cons have
        "(case remove_type_arguments_fix sc ?ta of
            Inl e \<Rightarrow> Inl e
          | Inr fixes \<Rightarrow>
              Inr [\<lparr>d_node = tr, messageId = ''redundantSimpleType'',
                    d_data = [(''type'', ?typeText)], d_fix = Some fixes\<rparr>]) = Inr ds"
        by simp
      then obtain fs where fs: "remove_type_arguments_fix sc ?ta = Inr fs"
        and ds: "ds = [\<lparr>d_node = tr, messageId = ''redundantSimpleType'',
                         d_data = [(''type'', ?typeText)], d_fix = Some fs\<rparr>]"
        by (cases "remove_type_arguments_fix sc ?ta") auto
      from ds assms(4,5) have "fs = fixes" by simp
      with remove_type_arguments_fix_valid [OF assms(1) wf1 fs] show ?thesis by simp
    next
      case False
      with run Cons have "useState_unions sc node_range ?ta typeParam args = Inr ds"
        by simp
      from useState_unions_valid [OF assms(1) wf1 wf2 wf3 wf4 this assms(4,5)]
      show ?thesis .
    qed
  qed
qed

lemma useState_visits_fix_valid:
  assumes "tokens_ok sc" and "list_all (wf_visit sc all_visits) visits"
      and "useState_visits sc visits = Inr ds"
      and "d \<in> set ds" and "d_fix d = Some fixes"
  shows "valid_fix (src_text sc) fixes"
  using assms(2,3,4)
proof (induction visits arbitrary: ds)
  case Nil
  then show ?case by simp
next
  case (Cons v vs)
  from Cons.prems(2) obtain d1 d2 where
    h: "(case v of VisitCallExpression node \<Rightarrow> useState_CallExpression sc node | _ \<Rightarrow> Inr [])
          = Inr d1" and
    t: "useState_visits sc vs = Inr d2" and ds: "ds = d1 @ d2"
    by (auto dest: then_report_Inr)
  from Cons.prems(3) ds consider "d \<in> set d1" | "d \<in> set d2" by auto
  then show ?case
  proof cases
    case 1
    with h obtain node where v: "v = VisitCallExpression node"
      and c: "useState_CallExpression sc node = Inr d1"
      by (cases v) auto
    from Cons.prems(1) v have "wf_call sc node"
      by (simp add: wf_visit_def)
    from useState_call_fix_valid [OF assms(1) this c 1 assms(5)] show ?thesis .
  next
    case 2
    with Cons.IH [OF _ t] Cons.prems(1) show ?thesis by simp
  qed
qed

subsection \<open>nextjs-page-pattern\<close>

lemma add_NextPage_import_apart:
  assumes "imports_apart sc r" and "fst r \<le> fst q" and "snd q \<le> snd r"
  shows "in_bounds (src_text sc) (fix_range (add_NextPage_import sc))
         \<and> \<not> overlap (fix_range (add_NextPage_import sc)) q"
proof (cases "find (\<lambda>n. fst n = ''ImportDeclaration'') (src_body sc)")
  case None
  then show ?thesis
    by (simp add: add_NextPage_import_def insertTextBeforeRange_def in_bounds_def overlap_def)
next
  case (Some b)
  then have "b \<in> set (src_body sc)" and "fst b = ''ImportDeclaration''"
    by (auto simp: find_Some_iff)
  with assms(1) have b: "in_bounds (src_text sc) (snd b)" "fst (snd b) < snd (snd b)"
    "\<not> overlap (snd b) r"
    by (auto simp: imports_apart_def list_all_iff)
  have range: "fix_range (add_NextPage_import sc) = (fst (snd b), fst (snd b))"
    by (simp add: add_NextPage_import_def Some insertTextBefore_def insertTextBeforeRange_def)
  show ?thesis
    unfolding range using b assms(2,3)
    by (auto simp: in_bounds_def overlap_def)
qed

lemma export_default_fix_valid:
  assumes "in_bounds (src_text sc) (ed_range node)" and "imports_apart sc (ed_range node)"
      and "d \<in> set (snd (page_ExportDefaultDeclaration filename sc st node))"
      and "d_fix d = Some fixes"
  shows "valid_fix (src_text sc) fixes"
proof (cases "ed_declaration node")
  case (DefaultFunction funcNode)
  from add_NextPage_import_apart [OF assms(2), of "ed_range node"]
  have imp: "in_bounds (src_text sc) (fix_range (add_NextPage_import sc))"
    "\<not> overlap (fix_range (add_NextPage_import sc)) (ed_range node)"
    by simp_all
  from assms(3,4) DefaultFunction obtain t where
    "fixes = (if \<not> hasNextPageImport st then [add_NextPage_import sc] else [])
             @ [Fix (ed_range node) t]"
    by (auto simp: page_ExportDefaultDeclaration_def Let_def replaceText_def
          replaceTextRange_def)
  with imp assms(1) show ?thesis
    by (cases "hasNextPageImport st") (simp_all add: valid_fix_def)
next
  case (DefaultIdentifier r n)
  with assms(3) show ?thesis
    by (simp add: page_ExportDefaultDeclaration_def Let_def)
next
  case (DefaultOther t r)
  with assms(3) show ?thesis
    by (simp add: page_ExportDefaultDeclaration_def Let_def)
qed

lemma export_named_diagnostics:
  "snd (page_ExportNamedDeclaration sc st node) = [] \<or>
   (\<exists>t t' anchor mid dat.
      snd (page_ExportNamedDeclaration sc st node) =
        [\<lparr>d_node = anchor, messageId = mid, d_data = dat,
          d_fix = Some ([Fix (en_range node) t]
                        @ (if defaultExport st = None then
                             (case src_body sc of
                                [] \<Rightarrow> []
                              | n # ns \<Rightarrow>
                                  [Fix (snd (snd (last (n # ns))), snd (snd (last (n # ns)))) t'])
                           else []))\<rparr>])"
proof (cases "en_declaration node")
  case None
  then show ?thesis by (simp add: page_ExportNamedDeclaration_def)
next
  case (Some nd)
  show ?thesis
  proof (cases nd)
    case (NamedOther t r)
    with Some show ?thesis by (simp add: page_ExportNamedDeclaration_def)
  next
    case (NamedVariableDeclaration varDecl)
    show ?thesis
    proof (cases "vd_declarations varDecl")
      case Nil
      with Some NamedVariableDeclaration show ?thesis
        by (simp add: page_ExportNamedDeclaration_def)
    next
      case (Cons decl decls)
      show ?thesis
      proof (cases "decl_id decl")
        case (BindingPattern t r)
        with Some NamedVariableDeclaration Cons show ?thesis
          by (simp add: page_ExportNamedDeclaration_def)
      next
        case (BindingIdentifier idr name ann)
        show ?thesis
        proof (cases "decl_init decl")
          case None
          with Some NamedVariableDeclaration Cons BindingIdentifier show ?thesis
            by (simp add: page_ExportNamedDeclaration_def)
        next
          case (Some init)
          with \<open>en_declaration node = Some nd\<close> NamedVariableDeclaration Cons BindingIdentifier
          show ?thesis
            by (cases "endsWith name ''Page'' \<and> is_function_form init")
               (simp_all add: page_ExportNamedDeclaration_def replaceText_def
                  replaceTextRange_def insertTextAfter_def insertTextAfterRange_def
                  split: list.split)
        qed
      qed
    qed
  qed
qed

lemma export_named_fix_valid:
  assumes "in_bounds (src_text sc) (en_range node)"
      and "case src_body sc of
             [] \<Rightarrow> True
           | b # bs \<Rightarrow> snd (en_range node) \<le> snd (snd (last (b # bs)))
                        \<and> in_bounds (src_text sc) (snd (last (b # bs)))"
      and "d \<in> set (snd (page_ExportNamedDeclaration sc st node))"
      and "d_fix d = Some fixes"
  shows "valid_fix (src_text sc) fixes"
proof -
  from export_named_diagnostics [of sc st node] assms(3,4) obtain t t' where
    fx: "fixes = [Fix (en_range node) t]
                 @ (if defaultExport st = None then
                      (case src_body sc of
                         [] \<Rightarrow> []
                       | n # ns \<Rightarrow>
                           [Fix (snd (snd (last (n # ns))), snd (snd (last (n # ns)))) t'])
                    else [])"
    by auto
  show ?thesis
  proof (cases "defaultExport st = None \<and> src_body sc \<noteq> []")
    case False
    with fx have "fixes = [Fix (en_range node) t]"
      by (cases "src_body sc") auto
    with assms(1) show ?thesis by (simp add: valid_fix_single)
  next
    case True
    then obtain n ns where body: "src_body sc = n # ns" by (cases "src_body sc") auto
    with True fx have "fixes = [Fix (en_range node) t,
                                Fix (snd (snd (last (n # ns))), snd (snd (last (n # ns)))) t']"
      by simp
    with assms(1,2) body show ?thesis
      by (auto simp: valid_fix_def in_bounds_def overlap_def)
  qed
qed

lemma badComponentName_fix_valid:
  assumes "in_bounds (src_text sc) id_rng"
      and "\<forall>de r n. defaultExport st = Some de \<and> ed_declaration de = DefaultIdentifier r n
             \<longrightarrow> in_bounds (src_text sc) r \<and> \<not> overlap id_rng r"
  shows "valid_fix (src_text sc) (badComponentName_fix st id_rng componentName suggestedName)"
proof (cases "defaultExport st")
  case None
  with assms(1) show ?thesis
    by (simp add: badComponentName_fix_def replaceText_def replaceTextRange_def valid_fix_single)
next
  case (Some de)
  show ?thesis
  proof (cases "ed_declaration de")
    case (DefaultIdentifier r n)
    with assms(2) Some have "in_bounds (src_text sc) r" "\<not> overlap id_rng r" by blast+
    with assms(1) Some DefaultIdentifier show ?thesis
      by (simp add: badComponentName_fix_def replaceText_def replaceTextRange_def valid_fix_def)
  next
    case (DefaultFunction f)
    with assms(1) Some show ?thesis
      by (simp add: badComponentName_fix_def replaceText_def replaceTextRange_def
            valid_fix_single)
  next
    case (DefaultOther t r)
    with assms(1) Some show ?thesis
      by (simp add: badComponentName_fix_def replaceText_def replaceTextRange_def
            valid_fix_single)
  qed
qed

lemma missingNextPageType_fix_valid:
  assumes "imports_apart sc parent"
      and "in_bounds (src_text sc) id_rng"
      and "fst parent \<le> fst id_rng" and "snd id_rng \<le> snd parent"
      and "case typeAnn of
             Some ta \<Rightarrow> fst ta \<le> snd ta \<and> fst id_rng \<le> fst ta \<and> snd ta \<le> snd id_rng
           | None \<Rightarrow> True"
  shows "valid_fix (src_text sc) (missingNextPageType_fix sc st id_rng typeAnn propsType)"
proof -
  define target where
    "target = (case typeAnn of Some ta \<Rightarrow> ta | None \<Rightarrow> (snd id_rng, snd id_rng))"
  have inside: "fst parent \<le> fst target" "snd target \<le> snd parent"
    and tin: "in_bounds (src_text sc) target"
    using assms(2-5) by (auto simp: target_def in_bounds_def split: option.splits)
  from add_NextPage_import_apart [OF assms(1) inside]
  have imp: "in_bounds (src_text sc) (fix_range (add_NextPage_import sc))"
    "\<not> overlap (fix_range (add_NextPage_import sc)) target"
    by simp_all
  obtain t where
    "missingNextPageType_fix sc st id_rng typeAnn propsType =
       (if \<not> hasNextPageImport st then [add_NextPage_import sc] else []) @ [Fix target t]"
    by (cases typeAnn)
       (simp_all add: missingNextPageType_fix_def target_def Let_def replaceText_def
          replaceTextRange_def insertTextAfter_def insertTextAfterRange_def)
  with imp tin show ?thesis
    by (cases "hasNextPageImport st") (simp_all add: valid_fix_def)
qed

lemma notArrowFunction_fix_valid:
  assumes "in_bounds (src_text sc) (expr_range init)"
      and "notArrowFunction_fix sc init = Some fixes"
  shows "valid_fix (src_text sc) fixes"
  using assms
  by (cases init)
     (auto simp: notArrowFunction_fix_def replaceText_def replaceTextRange_def valid_fix_single)

lemma const_declarator_fix_valid:
  assumes "imports_apart sc parent"
      and "wf_declarator sc parent defaults decl"
      and "\<forall>de r n. defaultExport st = Some de \<and> ed_declaration de = DefaultIdentifier r n
             \<longrightarrow> in_bounds (src_text sc) r \<and> r \<in> set defaults"
      and "d \<in> set (page_const_declarator filename sc st decl)"
      and "d_fix d = Some fixes"
  shows "valid_fix (src_text sc) fixes"
proof (cases "decl_id decl")
  case (BindingPattern t r)
  with assms(4) show ?thesis by (simp add: page_const_declarator_def)
next
  case (BindingIdentifier id_rng componentName typeAnn)
  show ?thesis
  proof (cases "decl_init decl")
    case None
    with assms(4) BindingIdentifier show ?thesis by (simp add: page_const_declarator_def)
  next
    case (Some init)
    from assms(2) BindingIdentifier Some have wf:
      "in_bounds (src_text sc) id_rng" "fst parent \<le> fst id_rng" "snd id_rng \<le> snd parent"
      "case typeAnn of
         Some ta \<Rightarrow> fst ta \<le> snd ta \<and> fst id_rng \<le> fst ta \<and> snd ta \<le> snd id_rng
       | None \<Rightarrow> True"
      "\<forall>r \<in> set defaults. \<not> overlap id_rng r"
      "in_bounds (src_text sc) (expr_range init)"
      by (simp_all add: wf_declarator_def list_all_iff)
    from assms(3) wf(5) have
      "\<forall>de r n. defaultExport st = Some de \<and> ed_declaration de = DefaultIdentifier r n
             \<longrightarrow> in_bounds (src_text sc) r \<and> \<not> overlap id_rng r"
      by blast
    note bad = badComponentName_fix_valid [OF wf(1) this]
    note missing = missingNextPageType_fix_valid [OF assms(1) wf(1-4)]
    note arrow = notArrowFunction_fix_valid [OF wf(6)]
    have "page_const_declarator filename sc st decl =
            (if endsWith componentName ''Page'' then
               (if componentName = ''Page'' then
                  [\<lparr>d_node = id_rng, messageId = ''badComponentName'',
                    d_data = [(''name'', componentName)],
                    d_fix = Some (badComponentName_fix st id_rng componentName
                                    (generatePageName filename))\<rparr>]
                else [])
               @ (if (case typeAnn of
                        None \<Rightarrow> True
                      | Some ta \<Rightarrow> \<not> str_includes (getText (src_text sc) ta) ''NextPage'')
                  then [\<lparr>d_node = id_rng, messageId = ''missingNextPageType'', d_data = [],
                         d_fix = Some (missingNextPageType_fix sc st id_rng typeAnn
                                         (arrow_props_type sc init))\<rparr>]
                  else [])
               @ (if \<not> is_arrow init
                  then [\<lparr>d_node = expr_range init, messageId = ''notArrowFunction'',
                         d_data = [], d_fix = notArrowFunction_fix sc init\<rparr>]
                  else [])
             else [])"
      by (simp add: page_const_declarator_def BindingIdentifier Some)
    with assms(4) have
      "d = \<lparr>d_node = id_rng, messageId = ''badComponentName'',
             d_data = [(''name'', componentName)],
             d_fix = Some (badComponentName_fix st id_rng componentName
                             (generatePageName filename))\<rparr>
       \<or> d = \<lparr>d_node = id_rng, messageId = ''missingNextPageType'', d_data = [],
               d_fix = Some (missingNextPageType_fix sc st id_rng typeAnn
                               (arrow_props_type sc init))\<rparr>
       \<or> d = \<lparr>d_node = expr_range init, messageId = ''notArrowFunction'',
               d_data = [], d_fix = notArrowFunction_fix sc init\<rparr>"
      by (auto split: if_splits)
    with assms(5) bad missing arrow show ?thesis
      by auto
  qed
qed

lemma let_declarator_fix_valid:
  assumes "in_bounds (src_text sc) (vd_range node)"
      and "d \<in> set (page_let_declarator sc node decl)"
      and "d_fix d = Some fixes"
  shows "valid_fix (src_text sc) fixes"
proof (cases "decl_id decl")
  case (BindingPattern t r)
  with assms(2) show ?thesis by (simp add: page_let_declarator_def)
next
  case (BindingIdentifier id_rng componentName typeAnn)
  show ?thesis
  proof (cases "decl_init decl")
    case None
    with assms(2) BindingIdentifier show ?thesis by (simp add: page_let_declarator_def)
  next
    case (Some init)
    with assms(2,3) BindingIdentifier obtain t where "fixes = [Fix (vd_range node) t]"
      by (cases "endsWith componentName ''Page''")
         (auto simp: page_let_declarator_def replaceText_def replaceTextRange_def)
    with assms(1) show ?thesis by (simp add: valid_fix_single)
  qed
qed

lemma default_identifier_ranges_member:
  assumes "VisitExportDefaultDeclaration de \<in> set visits"
      and "ed_declaration de = DefaultIdentifier r n"
  shows "r \<in> set (default_identifier_ranges visits)"
proof -
  have "r \<in> set (case VisitExportDefaultDeclaration de of
                     VisitExportDefaultDeclaration node \<Rightarrow>
                       (case ed_declaration node of DefaultIdentifier r _ \<Rightarrow> [r] | _ \<Rightarrow> [])
                   | _ \<Rightarrow> [])"
    using assms(2) by simp
  with assms(1) show ?thesis
    unfolding default_identifier_ranges_def concat_map_member by blast
qed

lemma default_export_known:
  assumes "list_all (wf_visit sc visits) visits"
      and "\<forall>de. defaultExport st = Some de \<longrightarrow> VisitExportDefaultDeclaration de \<in> set visits"
  shows "\<forall>de r n. defaultExport st = Some de \<and> ed_declaration de = DefaultIdentifier r n
           \<longrightarrow> in_bounds (src_text sc) r \<and> r \<in> set (default_identifier_ranges visits)"
proof (intro allI impI)
  fix de r n
  assume a: "defaultExport st = Some de \<and> ed_declaration de = DefaultIdentifier r n"
  with assms(2) have mem: "VisitExportDefaultDeclaration de \<in> set visits" by blast
  with assms(1) have "wf_visit sc visits (VisitExportDefaultDeclaration de)"
    by (simp add: list_all_iff)
  with a have "in_bounds (src_text sc) r"
    by (simp add: wf_visit_def)
  with default_identifier_ranges_member [OF mem] a
  show "in_bounds (src_text sc) r \<and> r \<in> set (default_identifier_ranges visits)"
    by blast
qed

lemma variable_declaration_fix_valid:
  assumes "wf_visit sc visits (VisitVariableDeclaration node)"
      and "list_all (wf_visit sc visits) visits"
      and "\<forall>de. defaultExport st = Some de \<longrightarrow> VisitExportDefaultDeclaration de \<in> set visits"
      and "d \<in> set (page_VariableDeclaration filename sc st node)"
      and "d_fix d = Some fixes"
  shows "valid_fix (src_text sc) fixes"
proof -
  from assms(1) have wf: "in_bounds (src_text sc) (vd_range node)"
    "imports_apart sc (vd_range node)"
    "\<forall>decl \<in> set (vd_declarations node).
       wf_declarator sc (vd_range node) (default_identifier_ranges visits) decl"
    by (simp_all add: wf_visit_def list_all_iff)
  note known = default_export_known [OF assms(2,3)]
  let ?c = "concat (map (page_const_declarator filename sc st) (vd_declarations node))"
  let ?l = "concat (map (page_let_declarator sc node) (vd_declarations node))"
  define A where
    "A \<longleftrightarrow> vd_kind node = ''const'' \<and> vd_parent_type node \<noteq> ''ExportNamedDeclaration''"
  define B where
    "B \<longleftrightarrow> (vd_kind node = ''let'' \<or> vd_kind node = ''var'')
           \<and> vd_parent_type node \<noteq> ''ExportNamedDeclaration''"
  have eq: "page_VariableDeclaration filename sc st node
              = (if A then ?c else []) @ (if B then ?l else [])"
    by (simp only: page_VariableDeclaration_def A_def B_def)
  have "set (page_VariableDeclaration filename sc st node) \<subseteq> set ?c \<union> set ?l"
    unfolding eq by (cases A; cases B) simp_all
  with assms(4) consider "d \<in> set ?c" | "d \<in> set ?l" by blast
  then show ?thesis
  proof cases
    case 1
    then obtain decl where "decl \<in> set (vd_declarations node)"
      and "d \<in> set (page_const_declarator filename sc st decl)"
      unfolding concat_map_member by blast
    with const_declarator_fix_valid [OF wf(2) _ known _ assms(5)] wf(3)
    show ?thesis by blast
  next
    case 2
    then obtain decl where "decl \<in> set (vd_declarations node)"
      and "d \<in> set (page_let_declarator sc node decl)"
      unfolding concat_map_member by blast
    with let_declarator_fix_valid [OF wf(1) _ assms(5)] show ?thesis by blast
  qed
qed

lemma page_visit_step:
  assumes "wf_visit sc visits v" and "v \<in> set visits"
      and "list_all (wf_visit sc visits) visits"
      and "\<forall>de. defaultExport (fst acc) = Some de
             \<longrightarrow> VisitExportDefaultDeclaration de \<in> set visits"
      and "\<forall>d \<in> set (snd acc). \<forall>fixes. d_fix d = Some fixes \<longrightarrow> valid_fix (src_text sc) fixes"
  shows "(\<forall>de. defaultExport (fst (page_visit filename sc acc v)) = Some de
             \<longrightarrow> VisitExportDefaultDeclaration de \<in> set visits)
         \<and> (\<forall>d \<in> set (snd (page_visit filename sc acc v)).
               \<forall>fixes. d_fix d = Some fixes \<longrightarrow> valid_fix (src_text sc) fixes)"
proof (cases v)
  case (VisitImportDeclaration node)
  with assms(4,5) show ?thesis
    by (simp add: page_visit_def Let_def page_ImportDeclaration_def)
next
  case (VisitExportDefaultDeclaration node)
  have st: "defaultExport (fst (page_ExportDefaultDeclaration filename sc (fst acc) node)) = Some node"
    by (cases "ed_declaration node") (simp_all add: page_ExportDefaultDeclaration_def Let_def)
  from assms(1) VisitExportDefaultDeclaration have
    "in_bounds (src_text sc) (ed_range node)" "imports_apart sc (ed_range node)"
    by (simp_all add: wf_visit_def)
  note new = export_default_fix_valid [OF this]
  from st assms(2,5) new VisitExportDefaultDeclaration show ?thesis
    by (auto simp: page_visit_def Let_def)
next
  case (VisitExportNamedDeclaration node)
  have st: "defaultExport (fst (page_ExportNamedDeclaration sc (fst acc) node))
              = defaultExport (fst acc)"
    by (simp add: page_ExportNamedDeclaration_def
          split: option.split named_declaration.split list.split binding.split)
  from assms(1) VisitExportNamedDeclaration have
    "in_bounds (src_text sc) (en_range node)"
    "case src_body sc of
       [] \<Rightarrow> True
     | b # bs \<Rightarrow> snd (en_range node) \<le> snd (snd (last (b # bs)))
                  \<and> in_bounds (src_text sc) (snd (last (b # bs)))"
    by (simp_all add: wf_visit_def)
  note new = export_named_fix_valid [OF this]
  from st assms(4,5) new VisitExportNamedDeclaration show ?thesis
    by (auto simp: page_visit_def Let_def)
next
  case (VisitVariableDeclaration node)
  note new = variable_declaration_fix_valid
    [OF assms(1) [unfolded VisitVariableDeclaration] assms(3,4)]
  from assms(4,5) new VisitVariableDeclaration show ?thesis
    by (auto simp: page_visit_def Let_def)
next
  case (VisitVariableDeclarator node)
  with assms(4,5) show ?thesis by (simp add: page_visit_def Let_def)
next
  case (VisitCallExpression node)
  with assms(4,5) show ?thesis by (simp add: page_visit_def Let_def)
qed

lemma page_fold_valid:
  assumes "list_all (wf_visit sc visits) visits"
      and "set vs \<subseteq> set visits"
      and "\<forall>de. defaultExport (fst acc) = Some de
             \<longrightarrow> VisitExportDefaultDeclaration de \<in> set visits"
      and "\<forall>d \<in> set (snd acc). \<forall>fixes. d_fix d = Some fixes \<longrightarrow> valid_fix (src_text sc) fixes"
  shows "\<forall>d \<in> set (snd (foldl (page_visit filename sc) acc vs)).
           \<forall>fixes. d_fix d = Some fixes \<longrightarrow> valid_fix (src_text sc) fixes"
  using assms(2,3,4)
proof (induction vs arbitrary: acc)
  case Nil
  then show ?case by simp
next
  case (Cons v vs)
  from Cons.prems(1) have v: "v \<in> set visits" and vs: "set vs \<subseteq> set visits" by auto
  from assms(1) v have "wf_visit sc visits v" by (simp add: list_all_iff)
  from page_visit_step [OF this v assms(1) Cons.prems(2,3)]
  have "\<forall>de. defaultExport (fst (page_visit filename sc acc v)) = Some de
             \<longrightarrow> VisitExportDefaultDeclaration de \<in> set visits"
    and "\<forall>d \<in> set (snd (page_visit filename sc acc v)).
               \<forall>fixes. d_fix d = Some fixes \<longrightarrow> valid_fix (src_text sc) fixes"
    by blast+
  from Cons.IH [OF vs this] show ?case by simp
qed

lemma page_pattern_fix_valid:
  assumes "list_all (wf_visit sc visits) visits"
      and "d \<in> set (nextjs_page_pattern filename sc visits)"
      and "d_fix d = Some fixes"
  shows "valid_fix (src_text sc) fixes"
proof (cases "endsWith filename ''/page.tsx''")
  case False
  with assms(2) show ?thesis
    by (simp only: nextjs_page_pattern_def not_False_eq_True if_True list.set empty_iff)
next
  case True
  with assms(2) have
    "d \<in> set (snd (foldl (page_visit filename sc) (page_init, []) visits))"
    by (simp only: nextjs_page_pattern_def not_True_eq_False if_False)
  moreover have "\<forall>d \<in> set (snd (foldl (page_visit filename sc) (page_init, []) visits)).
           \<forall>fixes. d_fix d = Some fixes \<longrightarrow> valid_fix (src_text sc) fixes"
    by (rule page_fold_valid [OF assms(1)]) (simp_all add: page_init_def)
  ultimately show ?thesis using assms(3) by blast
qed

section \<open>Every fix of every rule\<close>

lemma valid_fix_explicit:
  "valid_fix src fixes \<longleftrightarrow>
     (\<forall>f \<in> set fixes. fst (fix_range f) \<le> snd (fix_range f) \<and> snd (fix_range f) \<le> length src)
     \<and> (\<forall>i j. i < j \<and> j < length fixes
            \<longrightarrow> \<not> overlap (fix_range (fixes ! i)) (fix_range (fixes ! j)))"
  by (auto simp: valid_fix_def list_all_iff in_bounds_def non_overlapping_sorted_wrt
        sorted_wrt_map sorted_wrt_iff_nth_less)

lemma rule_fix_valid:
  assumes "well_formed sc visits"
      and "run_rule rule filename sc visits = Inr ds"
      and "d \<in> set ds" and "d_fix d = Some fixes"
  shows "valid_fix (src_text sc) fixes"
proof -
  from assms(1) have tok: "tokens_ok sc" and wf: "list_all (wf_visit sc visits) visits"
    by (simp_all add: well_formed_def)
  show ?thesis
  proof (cases rule)
    case LucideIconSuffix
    with assms(2) have "lucide_visits sc visits = Inr ds"
      by (simp add: run_rule_def lucide_icon_suffix_def)
    from lucide_visits_fix_valid [OF wf this assms(3,4)] show ?thesis .
  next
    case SupabaseNoDirectImports
    with assms(2,3) obtain v where v: "v \<in> set visits"
      and d: "d \<in> set (supabase_visit filename v)"
      by (auto simp: run_rule_def supabase_no_direct_imports_def)
    from d obtain node where n: "v = VisitImportDeclaration node"
      by (cases v) (simp_all add: supabase_visit_def)
    from wf v n have "wf_import sc node"
      by (auto simp: list_all_iff wf_visit_def)
    from supabase_import_fix_valid [OF this _ assms(4)] d n show ?thesis
      by (simp add: supabase_visit_def)
  next
    case SupabaseNoInsertWithId
    with assms(2,3) have "d \<in> set (supabase_no_insert_with_id visits)"
      by (auto simp: run_rule_def)
    from insert_rule_no_fix [OF this] assms(4) show ?thesis by simp
  next
    case ReactNoRedundantUsestateTypes
    with assms(2) have "useState_visits sc visits = Inr ds"
      by (simp add: run_rule_def react_no_redundant_usestate_types_def)
    from useState_visits_fix_valid [OF tok wf this assms(3,4)] show ?thesis .
  next
    case NextNoRedirectOnlyPages
    with assms(2,3) have "d \<in> set (next_no_redirect_only_pages filename visits)"
      by (auto simp: run_rule_def)
    from redirect_rule_no_fix [OF this] assms(4) show ?thesis by simp
  next
    case NextjsPagePattern
    with assms(2,3) have "d \<in> set (nextjs_page_pattern filename sc visits)"
      by (auto simp: run_rule_def)
    from page_pattern_fix_valid [OF wf this assms(4)] show ?thesis .
  qed
qed

text \<open>
  C2. On well-formed input, for every diagnostic that any of the six rules emits with a
  fix, the edits of the fix lie within the bounds of the source text and are pairwise
  non-overlapping half-open ranges; applying the fix succeeds, and every character of
  the source outside the edited ranges is found unchanged in the result, at the offset
  shifted by the edits before it.
\<close>

theorem every_fix_is_valid_and_preserves_text:
  assumes "well_formed sc visits"
      and "run_rule rule filename sc visits = Inr ds"
      and "d \<in> set ds" and "d_fix d = Some fixes"
  shows "(\<forall>f \<in> set fixes. fst (fix_range f) \<le> snd (fix_range f)
                            \<and> snd (fix_range f) \<le> length (src_text sc))
         \<and> (\<forall>i j. i < j \<and> j < length fixes
                \<longrightarrow> \<not> overlap (fix_range (fixes ! i)) (fix_range (fixes ! j)))
         \<and> (\<exists>out. apply_fix (src_text sc) fixes = Some out
                \<and> (\<forall>i < length (src_text sc). \<not> edited fixes i
                      \<longrightarrow> new_offset fixes i < length out
                          \<and> out ! new_offset fixes i = src_text sc ! i))"
proof -
  have valid: "valid_fix (src_text sc) fixes"
    using assms by (rule rule_fix_valid)
  then have out: "apply_fix (src_text sc) fixes
                    = Some (apply_from 0 (src_text sc) (sort_fixes fixes))"
    by (simp add: apply_fix_def)
  have "\<forall>i < length (src_text sc). \<not> edited fixes i
          \<longrightarrow> new_offset fixes i < length (apply_from 0 (src_text sc) (sort_fixes fixes))
              \<and> apply_from 0 (src_text sc) (sort_fixes fixes) ! new_offset fixes i
                  = src_text sc ! i"
    using apply_fix_preserves [OF valid] out by auto
  with out valid show ?thesis
    unfolding valid_fix_explicit by blast
qed

lemma lucide_example_run:
  "run_rule LucideIconSuffix ''/repo/src/app/page.tsx'' lucide_example_source
     [VisitImportDeclaration lucide_example_import] =
   Inr [\<lparr>d_node = (9, 13), messageId = ''missingIconSuffix'',
         d_data = [(''imported'', ''Home''), (''suggested'', ''HomeIcon'')],
         d_fix = Some [Fix (9, 13) ''HomeIcon'', Fix (69, 73) ''HomeIcon'',
                       Fix (78, 82) ''HomeIcon'']\<rparr>,
        \<lparr>d_node = (15, 24), messageId = ''missingIconSuffix'',
         d_data = [(''imported'', ''User''), (''suggested'', ''UserIcon'')],
         d_fix = Some [Fix (15, 19) ''UserIcon'']\<rparr>]"
  by (simp add: run_rule_def lucide_icon_suffix_def lucide_visit_def
        lucide_ImportDeclaration_def lucide_specifier_def lucide_fix_def then_report_def
        lucide_example_import_def lucide_example_source_def endsWith_def
        replaceText_def replaceTextRange_def Let_def)

lemma lucide_example_well_formed:
  "well_formed lucide_example_source [VisitImportDeclaration lucide_example_import]"
  by (simp add: well_formed_def tokens_ok_def wf_visit_def wf_import_def
        lucide_example_import_def lucide_example_source_def in_bounds_def overlap_def
        newline_def Let_def)

theorem every_fix_witness:
  \<open>valid_fix (src_text lucide_example_source)
     [Fix (9, 13) ''HomeIcon'', Fix (69, 73) ''HomeIcon'', Fix (78, 82) ''HomeIcon'']
   \<and> apply_fix (src_text lucide_example_source)
         [Fix (9, 13) ''HomeIcon'', Fix (69, 73) ''HomeIcon'', Fix (78, 82) ''HomeIcon'']
       = Some (''import { HomeIcon, User as U, StarIcon } from "lucide-react";'' @ newline
               @ ''const a = [HomeIcon, U, HomeIcon];'')
   \<and> new_offset [Fix (9, 13) ''HomeIcon'', Fix (69, 73) ''HomeIcon'',
                  Fix (78, 82) ''HomeIcon''] 75 = 83
   \<and> (''import { HomeIcon, User as U, StarIcon } from "lucide-react";'' @ newline
        @ ''const a = [HomeIcon, U, HomeIcon];'') ! 83 = src_text lucide_example_source ! 75\<close>
proof -
  let ?fixes = "[Fix (9, 13) ''HomeIcon'', Fix (69, 73) ''HomeIcon'', Fix (78, 82) ''HomeIcon'']"
  have mem: "\<lparr>d_node = (9, 13), messageId = ''missingIconSuffix'',
         d_data = [(''imported'', ''Home''), (''suggested'', ''HomeIcon'')],
         d_fix = Some ?fixes\<rparr>
       \<in> set [\<lparr>d_node = (9, 13), messageId = ''missingIconSuffix'',
         d_data = [(''imported'', ''Home''), (''suggested'', ''HomeIcon'')],
         d_fix = Some ?fixes\<rparr>,
        \<lparr>d_node = (15, 24), messageId = ''missingIconSuffix'',
         d_data = [(''imported'', ''User''), (''suggested'', ''UserIcon'')],
         d_fix = Some [Fix (15, 19) ''UserIcon'']\<rparr>]"
    by simp
  have fx: "d_fix \<lparr>d_node = (9, 13), messageId = ''missingIconSuffix'',
         d_data = [(''imported'', ''Home''), (''suggested'', ''HomeIcon'')],
         d_fix = Some ?fixes\<rparr> = Some ?fixes"
    by simp
  note main = every_fix_is_valid_and_preserves_text
    [OF lucide_example_well_formed lucide_example_run mem fx]
  have applied: \<open>apply_fix (src_text lucide_example_source) ?fixes
       = Some (''import { HomeIcon, User as U, StarIcon } from "lucide-react";'' @ newline
               @ ''const a = [HomeIcon, U, HomeIcon];'')\<close>
    by (simp add: apply_fix_def valid_fix_def in_bounds_def overlap_def fix_le_def
          lucide_example_source_def newline_def)
  have off: "new_offset ?fixes 75 = 83"
    by (simp add: new_offset_def fix_le_def)
  have lt: "75 < length (src_text lucide_example_source)" and ne: "\<not> edited ?fixes 75"
    by (simp_all add: lucide_example_source_def newline_def edited_def)
  from main have v: "valid_fix (src_text lucide_example_source) ?fixes"
    unfolding valid_fix_explicit by blast
  from main obtain out where o: "apply_fix (src_text lucide_example_source) ?fixes = Some out"
    and p: "\<forall>i < length (src_text lucide_example_source). \<not> edited ?fixes i
              \<longrightarrow> new_offset ?fixes i < length out
                  \<and> out ! new_offset ?fixes i = src_text lucide_example_source ! i"
    by blast
  from p lt ne have "out ! new_offset ?fixes 75 = src_text lucide_example_source ! 75"
    by blast
  moreover from o have "out = the (apply_fix (src_text lucide_example_source) ?fixes)"
    by simp
  ultimately have last:
    \<open>(''import { HomeIcon, User as U, StarIcon } from "lucide-react";'' @ newline
        @ ''const a = [HomeIcon, U, HomeIcon];'') ! 83 = src_text lucide_example_source ! 75\<close>
    unfolding applied off option.sel by simp
  show ?thesis
    apply (intro conjI)
       apply (rule v)
      apply (rule applied)
     apply (rule off)
    apply (rule last)
    done
qed

section \<open>Re-running a rule after its fix\<close>








lemma const_declaration_no_notConst:
  assumes "vd_kind node = ''const''" and "d \<in> set (page_VariableDeclaration filename sc st node)"
  shows "messageId d \<noteq> ''notConst''"
proof -
  from assms have "d \<in> set (concat (map (page_const_declarator filename sc st)
                                      (vd_declarations node)))"
    by (cases "vd_parent_type node \<noteq> ''ExportNamedDeclaration''")
       (simp_all add: page_VariableDeclaration_def)
  then obtain decl where d: "d \<in> set (page_const_declarator filename sc st decl)"
    unfolding concat_map_member by blast
  show ?thesis
  proof (cases "decl_id decl")
    case (BindingPattern t r)
    with d show ?thesis by (simp add: page_const_declarator_def)
  next
    case (BindingIdentifier idr name ann)
    show ?thesis
    proof (cases "decl_init decl")
      case None
      with d BindingIdentifier show ?thesis by (simp add: page_const_declarator_def)
    next
      case (Some init)
      with d BindingIdentifier have
        "messageId d = ''badComponentName'' \<or> messageId d = ''missingNextPageType''
         \<or> messageId d = ''notArrowFunction''"
        by (auto simp: page_const_declarator_def split: if_splits)
      then show ?thesis by auto
    qed
  qed
qed









































text \<open>
  The carve-out for \<open>badComponentName\<close> below is needed: in a directory named \<open>-\<close> the
  name generated from the path is \<open>Page\<close> itself, and the fix rewrites \<open>Page\<close> to
  \<open>Page\<close>.
\<close>

lemma badComponentName_fix_can_keep_name:
  \<open>generatePageName ''/repo/src/app/-/page.tsx'' = ''Page''
   \<and> page_const_declarator ''/repo/src/app/-/page.tsx'' plain_page_source page_init
        plain_page_declarator
      = [\<lparr>d_node = (6, 10), messageId = ''badComponentName'', d_data = [(''name'', ''Page'')],
          d_fix = Some [Fix (6, 10) ''Page'']\<rparr>,
         \<lparr>d_node = (6, 10), messageId = ''missingNextPageType'', d_data = [],
          d_fix = Some [Fix (0, 0) (''import type { NextPage } from "next";'' @ newline @ newline),
                        Fix (10, 10) '': NextPage'']\<rparr>]
   \<and> apply_fix (src_text plain_page_source) [Fix (6, 10) ''Page'']
        = Some (src_text plain_page_source)\<close>
  by (simp add: generatePageName_def pascal_page_def capitalize_def startsWith_def Let_def
        page_const_declarator_def plain_page_declarator_def plain_page_source_def endsWith_def
        badComponentName_fix_def page_init_def replaceText_def replaceTextRange_def
        missingNextPageType_fix_def add_NextPage_import_def arrow_props_type_def
        props_type_of_def is_arrow_def nextPage_import_def insertTextBeforeRange_def
        insertTextAfter_def insertTextAfterRange_def apply_fix_def valid_fix_def in_bounds_def)





end
